theory Spec2Isabelle
  imports Main
begin

section \<open>Strings, events and errors\<close>

text \<open>
  Python strings are modelled as \<open>string\<close>, lists of 8-bit characters, read as the
  code points U+0000 to U+00FF; text with other code points is outside the model (the
  log files of the license manager are ASCII text).  On these code points
  \<open>str.lower()\<close> maps the letters \<open>A\<close>..\<open>Z\<close> to \<open>a\<close>..\<open>z\<close> and the
  letters U+00C0..U+00DE other than the sign U+00D7 to the letters 32 places above
  them, and leaves every other character alone.
\<close>

definition lower_char :: "char \<Rightarrow> char" where
  "lower_char c =
     (case map_of
        (zip (''ABCDEFGHIJKLMNOPQRSTUVWXYZ'' @
              [CHR 0xC0, CHR 0xC1, CHR 0xC2, CHR 0xC3, CHR 0xC4, CHR 0xC5, CHR 0xC6, CHR 0xC7,
               CHR 0xC8, CHR 0xC9, CHR 0xCA, CHR 0xCB, CHR 0xCC, CHR 0xCD, CHR 0xCE, CHR 0xCF,
               CHR 0xD0, CHR 0xD1, CHR 0xD2, CHR 0xD3, CHR 0xD4, CHR 0xD5, CHR 0xD6,
               CHR 0xD8, CHR 0xD9, CHR 0xDA, CHR 0xDB, CHR 0xDC, CHR 0xDD, CHR 0xDE])
             (''abcdefghijklmnopqrstuvwxyz'' @
              [CHR 0xE0, CHR 0xE1, CHR 0xE2, CHR 0xE3, CHR 0xE4, CHR 0xE5, CHR 0xE6, CHR 0xE7,
               CHR 0xE8, CHR 0xE9, CHR 0xEA, CHR 0xEB, CHR 0xEC, CHR 0xED, CHR 0xEE, CHR 0xEF,
               CHR 0xF0, CHR 0xF1, CHR 0xF2, CHR 0xF3, CHR 0xF4, CHR 0xF5, CHR 0xF6,
               CHR 0xF8, CHR 0xF9, CHR 0xFA, CHR 0xFB, CHR 0xFC, CHR 0xFD, CHR 0xFE])) c of
        Some l \<Rightarrow> l
      | None \<Rightarrow> c)"

definition lower :: "string \<Rightarrow> string" where
  "lower s = map lower_char s"

text \<open>
  An entry of \<open>result_list\<close> is the tuple
  \<open>(date, time, state, module, user, machine)\<close> built by \<open>read_files\<close>.
\<close>

type_synonym event = "string \<times> string \<times> string \<times> string \<times> string \<times> string"

text \<open>
  A value of the \<open>stats\<close> dictionary of \<open>do_some_stats\<close> is the tuple
  \<open>(max_users, min_users, max_day, nb_users, total_use, nb_days, old_date)\<close>.
\<close>

type_synonym module_stats = "int \<times> int \<times> string \<times> int \<times> int \<times> int \<times> string"

datatype py_error = KeyError

section \<open>The deduplicator\<close>

text \<open>
  \<open>deduplicate\<close> mutates the set it is given and returns a flag (\<open>True\<close>: the caller
  skips the event).  The model returns the flag together with the updated set.
\<close>

definition deduplicate ::
  "string set \<Rightarrow> string \<Rightarrow> string \<Rightarrow> string \<Rightarrow> string \<Rightarrow> bool \<times> string set" where
  "deduplicate stats_dedup state module user machine =
     (let module_user_machine = module @ '':'' @ user @ ''@'' @ machine
      in if lower state = ''out'' then
           (if module_user_machine \<in> stats_dedup then (True, stats_dedup)
            else (False, insert module_user_machine stats_dedup))
         else if lower state = ''in'' then
           (if module_user_machine \<in> stats_dedup
            then (False, stats_dedup - {module_user_machine})
            else (True, stats_dedup))
         else (False, stats_dedup))"

text \<open>
  The events that survive deduplication, in input order: what both folds see after
  their \<open>continue\<close>.  The first argument is the content of the set when the
  loop reaches the list.
\<close>

fun accepted :: "string set \<Rightarrow> event list \<Rightarrow> event list" where
  "accepted stats_dedup [] = []"
| "accepted stats_dedup ((date, time, state, module, user, machine) # rest) =
     (case deduplicate stats_dedup state module user machine of
        (True, stats_dedup') \<Rightarrow> accepted stats_dedup' rest
      | (False, stats_dedup') \<Rightarrow>
          (date, time, state, module, user, machine) # accepted stats_dedup' rest)"

text \<open>
  The key the deduplicator stores for an event, and the content of the set after the
  loop has gone through a list of events.
\<close>

definition dedup_key :: "string \<Rightarrow> string \<Rightarrow> string \<Rightarrow> string" where
  "dedup_key module user machine = module @ '':'' @ user @ ''@'' @ machine"

fun dedup_after :: "string set \<Rightarrow> event list \<Rightarrow> string set" where
  "dedup_after stats_dedup [] = stats_dedup"
| "dedup_after stats_dedup ((date, time, state, module, user, machine) # rest) =
     dedup_after (snd (deduplicate stats_dedup state module user machine)) rest"

section \<open>Summary statistics\<close>

definition get_stats_from_module ::
  "(string \<rightharpoonup> module_stats) \<Rightarrow> string list \<Rightarrow> string \<Rightarrow>
   py_error + ((string \<rightharpoonup> module_stats) \<times> string list \<times> module_stats)" where
  "get_stats_from_module stats module_list module =
     (let (stats, module_list) =
            (if module \<notin> set module_list
             then (stats(module \<mapsto> (0, 999999999999, '''', 0, 0, 0, ''XXXXXXX'')),
                   module_list @ [module])
             else (stats, module_list))
      in case stats module of
           None \<Rightarrow> Inl KeyError
         | Some t \<Rightarrow> Inr (stats, module_list, t))"

definition count_users_upon_state :: "string \<Rightarrow> int \<Rightarrow> int \<Rightarrow> int \<times> int" where
  "count_users_upon_state state nb_users total_use =
     (if lower state = ''out'' then (nb_users + 1, total_use + 1)
      else if lower state = ''in'' then (nb_users - 1, total_use)
      else (nb_users, total_use))"

definition get_min_max_users ::
  "int \<Rightarrow> int \<Rightarrow> int \<Rightarrow> string \<Rightarrow> string \<Rightarrow> int \<times> int \<times> string" where
  "get_min_max_users nb_users min_users max_users date max_day =
     (let (max_users, max_day) =
            (if nb_users > 0 \<and> nb_users > max_users then (nb_users, date)
             else (max_users, max_day));
          min_users =
            (if nb_users \<ge> 0 \<and> nb_users < min_users then nb_users else min_users)
      in (min_users, max_users, max_day))"

text \<open>
  The state of the loop of \<open>do_some_stats\<close>: the dictionary, the list of modules in
  first-seen order and the deduplication set.
\<close>

type_synonym stats_state =
  "(string \<rightharpoonup> module_stats) \<times> string list \<times> string set"

fun stats_body :: "stats_state \<Rightarrow> event \<Rightarrow> py_error + stats_state" where
  "stats_body (stats, module_list, stats_dedup) (date, time, state, module, user, machine) =
     (case deduplicate stats_dedup state module user machine of
        (True, stats_dedup) \<Rightarrow> Inr (stats, module_list, stats_dedup)
      | (False, stats_dedup) \<Rightarrow>
          (case get_stats_from_module stats module_list module of
             Inl err \<Rightarrow> Inl err
           | Inr (stats, module_list,
                  (max_users, min_users, max_day, nb_users, total_use, nb_days, old_date)) \<Rightarrow>
               (let (nb_days, old_date) =
                      (if date \<noteq> old_date \<and> lower state = ''out''
                       then (nb_days + 1, date) else (nb_days, old_date));
                    (nb_users, total_use) = count_users_upon_state state nb_users total_use;
                    (min_users, max_users, max_day) =
                      get_min_max_users nb_users min_users max_users date max_day
                in Inr (stats(module \<mapsto>
                          (max_users, min_users, max_day, nb_users, total_use, nb_days, old_date)),
                        module_list, stats_dedup))))"

fun stats_loop :: "stats_state \<Rightarrow> event list \<Rightarrow> py_error + stats_state" where
  "stats_loop s [] = Inr s"
| "stats_loop s (data # rest) =
     (case stats_body s data of Inl err \<Rightarrow> Inl err | Inr s' \<Rightarrow> stats_loop s' rest)"

definition do_some_stats ::
  "event list \<Rightarrow> py_error + ((string \<rightharpoonup> module_stats) \<times> string list)" where
  "do_some_stats result_list =
     (case stats_loop (Map.empty, [], {}) result_list of
        Inl err \<Rightarrow> Inl err
      | Inr (stats, module_list, stats_dedup) \<Rightarrow> Inr (stats, module_list))"

text \<open>
  \<open>print_stats\<close> prints, for every module of \<open>name_list\<close>, the name, the maximum with
  its day, the minimum (0 when the maximum is 0), the total number of uses, the days
  used out of \<open>nb_days\<close> and, when the module was used on some day, the average use
  per day.  The model returns the printed values, one tuple per module.

  The average is printed with \<open>%d\<close> from \<open>total_use/nb_use_days\<close>, a float in
  Python 3: the correctly rounded quotient, of which \<open>%d\<close> drops the fraction.  When
  \<open>total_use\<close> is below \<open>2^53\<close> in absolute value, no quotient short of a whole
  number is rounded up to it, and the printed value is the exact quotient truncated
  towards zero.  Beyond that the rounding (or the overflow) of the float decides; the
  model then says only that the line is printed.
\<close>

datatype average_line = No_average | Average int | Float_average

definition truncated_average :: "int \<Rightarrow> int \<Rightarrow> average_line" where
  "truncated_average total_use nb_use_days =
     (if \<bar>total_use\<bar> < 2 ^ 53
      then Average (if total_use \<ge> 0 then total_use div nb_use_days
                    else - ((- total_use) div nb_use_days))
      else Float_average)"

type_synonym stats_report =
  "(string \<times> int \<times> string \<times> int \<times> int \<times> int \<times> int \<times> average_line) list"

fun print_stats ::
  "int \<Rightarrow> (string \<rightharpoonup> module_stats) \<Rightarrow> string list \<Rightarrow> py_error + stats_report" where
  "print_stats nb_days stats [] = Inr []"
| "print_stats nb_days stats (name # name_list) =
     (case stats name of
        None \<Rightarrow> Inl KeyError
      | Some (max_users, min_users, max_day, nb_users, total_use, nb_use_days, date) \<Rightarrow>
          (let min_users = (if max_users = 0 then 0 else min_users);
               average = (if nb_use_days > 0 then truncated_average total_use nb_use_days
                          else No_average)
           in case print_stats nb_days stats name_list of
                Inl err \<Rightarrow> Inl err
              | Inr printed \<Rightarrow>
                  Inr ((name, max_users, max_day, min_users, total_use, nb_use_days, nb_days,
                        average) # printed)))"

definition output_stats :: "int \<Rightarrow> event list \<Rightarrow> py_error + stats_report" where
  "output_stats nb_days result_list =
     (case do_some_stats result_list of
        Inl err \<Rightarrow> Inl err
      | Inr (stats, name_list) \<Rightarrow> print_stats nb_days stats name_list)"

section \<open>The time series\<close>

text \<open>
  In \<open>init_use_upon_state\<close> the second test compares the bound method
  \<open>state.lower\<close> (not its result) with a string; such a comparison is false for
  every state, and the branch it guards assigns the value \<open>use\<close> already has.
\<close>

definition init_use_upon_state :: "string \<Rightarrow> int" where
  "init_use_upon_state state =
     (let use = 0
      in if lower state = ''out'' then 1
         else if False then 0
         else use)"

definition update_use_value_upon_state :: "string \<Rightarrow> int \<Rightarrow> int" where
  "update_use_value_upon_state state use =
     (if lower state = ''out'' then use + 1
      else if lower state = ''in'' then use - 1
      else use)"

type_synonym series = "(string \<times> string \<times> int) list"

type_synonym gnuplot_state = "(string \<rightharpoonup> series) \<times> string list \<times> string set"

fun gnuplot_body :: "gnuplot_state \<Rightarrow> event \<Rightarrow> py_error + gnuplot_state" where
  "gnuplot_body (stats, module_list, stats_dedup) (date, time, state, module, user, machine) =
     (case deduplicate stats_dedup state module user machine of
        (True, stats_dedup) \<Rightarrow> Inr (stats, module_list, stats_dedup)
      | (False, stats_dedup) \<Rightarrow>
          (let (stats, module_list) =
                 (if module \<notin> set module_list
                  then (stats(module \<mapsto> []), module_list @ [module])
                  else (stats, module_list))
           in case stats module of
                None \<Rightarrow> Inl KeyError
              | Some event_list \<Rightarrow>
                  (let use = (case event_list of
                                [] \<Rightarrow> init_use_upon_state state
                              | (some_date, some_time, use) # older \<Rightarrow>
                                  update_use_value_upon_state state use)
                   in Inr (stats(module \<mapsto> (date, time, use) # event_list),
                           module_list, stats_dedup))))"

fun gnuplot_loop :: "gnuplot_state \<Rightarrow> event list \<Rightarrow> py_error + gnuplot_state" where
  "gnuplot_loop s [] = Inr s"
| "gnuplot_loop s (data # rest) =
     (case gnuplot_body s data of Inl err \<Rightarrow> Inl err | Inr s' \<Rightarrow> gnuplot_loop s' rest)"

definition do_gnuplot_stats ::
  "event list \<Rightarrow> py_error + ((string \<rightharpoonup> series) \<times> string list)" where
  "do_gnuplot_stats result_list =
     (case gnuplot_loop (Map.empty, [], {}) result_list of
        Inl err \<Rightarrow> Inl err
      | Inr (stats, module_list, stats_dedup) \<Rightarrow> Inr (stats, module_list))"

text \<open>
  \<open>print_gnuplot\<close> writes one data file per module of \<open>module_list\<close>, named after the
  module, with one line \<open>date time use\<close> per entry of the event list, which it
  first reverses in place (so the dictionary holds the reversed list from then on).
  The model returns the data files in the order they are written, each as its name
  and its rows; the text of the gnuplot script, which does not depend on the events,
  is left out.
\<close>

fun print_gnuplot ::
  "(string \<rightharpoonup> series) \<Rightarrow> string list \<Rightarrow> py_error + (string \<times> series) list" where
  "print_gnuplot stats [] = Inr []"
| "print_gnuplot stats (m # module_list) =
     (case stats m of
        None \<Rightarrow> Inl KeyError
      | Some event_list \<Rightarrow>
          (let event_list = rev event_list;
               stats = stats(m \<mapsto> event_list)
           in case print_gnuplot stats module_list of
                Inl err \<Rightarrow> Inl err
              | Inr files \<Rightarrow> Inr ((m @ ''.dat'', event_list) # files)))"

definition output_gnuplot :: "event list \<Rightarrow> py_error + (string \<times> series) list" where
  "output_gnuplot result_list =
     (case do_gnuplot_stats result_list of
        Inl err \<Rightarrow> Inl err
      | Inr (stats, module_list) \<Rightarrow> print_gnuplot stats module_list)"

section \<open>Matching log lines\<close>

text \<open>
  The three patterns \<open>read_files\<close> hands to \<open>re.match\<close> are sequences of literal
  text, one optional character and greedy repetitions \<open>\d+\<close>, \<open>\w+\<close> and \<open>.+\<close>.
  \<open>re.match\<close> anchors a pattern at the start of the line, need not reach its end, and
  backtracks: a repetition first takes the longest run it can and gives characters back
  one at a time while the rest of the pattern fails.  \<open>re_match\<close> returns the text
  taken by every atom of the pattern, in order.

  The patterns are \<open>str\<close> patterns, so the classes are those of Unicode.  Among the
  code points up to U+00FF, \<open>\d\<close> takes the ten digits only; \<open>\w\<close> takes the
  ASCII letters and digits, the underscore, and the characters that \<open>str.isalnum\<close>
  accepts: the letters U+00AA, U+00B5, U+00BA, U+00C0..U+00D6, U+00D8..U+00F6 and
  U+00F8..U+00FF, and the numbers U+00B2, U+00B3, U+00B9, U+00BC, U+00BD and U+00BE;
  \<open>.\<close> takes every character but the line feed.
\<close>

datatype cclass = Digit | Word | AnyChar

datatype atom = Str string | Opt char | Plus cclass

fun in_class :: "cclass \<Rightarrow> char \<Rightarrow> bool" where
  "in_class Digit c = (c \<in> set ''0123456789'')"
| "in_class Word c =
     (c \<in> set ''abcdefghijklmnopqrstuvwxyzABCDEFGHIJKLMNOPQRSTUVWXYZ0123456789_'' \<or>
      c \<in> set
        [CHR 0xAA, CHR 0xB2, CHR 0xB3, CHR 0xB5, CHR 0xB9, CHR 0xBA, CHR 0xBC, CHR 0xBD,
         CHR 0xBE,
         CHR 0xC0, CHR 0xC1, CHR 0xC2, CHR 0xC3, CHR 0xC4, CHR 0xC5, CHR 0xC6, CHR 0xC7,
         CHR 0xC8, CHR 0xC9, CHR 0xCA, CHR 0xCB, CHR 0xCC, CHR 0xCD, CHR 0xCE, CHR 0xCF,
         CHR 0xD0, CHR 0xD1, CHR 0xD2, CHR 0xD3, CHR 0xD4, CHR 0xD5, CHR 0xD6,
         CHR 0xD8, CHR 0xD9, CHR 0xDA, CHR 0xDB, CHR 0xDC, CHR 0xDD, CHR 0xDE, CHR 0xDF,
         CHR 0xE0, CHR 0xE1, CHR 0xE2, CHR 0xE3, CHR 0xE4, CHR 0xE5, CHR 0xE6, CHR 0xE7,
         CHR 0xE8, CHR 0xE9, CHR 0xEA, CHR 0xEB, CHR 0xEC, CHR 0xED, CHR 0xEE, CHR 0xEF,
         CHR 0xF0, CHR 0xF1, CHR 0xF2, CHR 0xF3, CHR 0xF4, CHR 0xF5, CHR 0xF6,
         CHR 0xF8, CHR 0xF9, CHR 0xFA, CHR 0xFB, CHR 0xFC, CHR 0xFD, CHR 0xFE, CHR 0xFF])"
| "in_class AnyChar c = (c \<noteq> CHR 0x0A)"

fun re_match :: "atom list \<Rightarrow> string \<Rightarrow> string list option"
  and re_plus :: "cclass \<Rightarrow> atom list \<Rightarrow> string \<Rightarrow> nat \<Rightarrow> string list option" where
  "re_match [] s = Some []"
| "re_match (Str l # r) s =
     (if take (length l) s = l
      then (case re_match r (drop (length l) s) of
              None \<Rightarrow> None
            | Some g \<Rightarrow> Some (l # g))
      else None)"
| "re_match (Opt c # r) s =
     (case (if take 1 s = [c] then re_match r (drop 1 s) else None) of
        Some g \<Rightarrow> Some ([c] # g)
      | None \<Rightarrow>
          (case re_match r s of
             None \<Rightarrow> None
           | Some g \<Rightarrow> Some ([] # g)))"
| "re_match (Plus k # r) s = re_plus k r s (length (takeWhile (in_class k) s))"
| "re_plus k r s 0 = None"
| "re_plus k r s (Suc n) =
     (case re_match r (drop (Suc n) s) of
        Some g \<Rightarrow> Some (take (Suc n) s # g)
      | None \<Rightarrow> re_plus k r s n)"

text \<open>
  The pattern \<^verbatim>\<open>\ ?\d+:\d+:\d+ .+ \((\d+)/(\d+)/(\d+)\)\<close> of the line that
  tells the starting date; the result holds its groups 1, 2 and 3.
\<close>

definition match_start_date :: "string \<Rightarrow> (string \<times> string \<times> string) option" where
  "match_start_date line =
     (case re_match [Opt CHR '' '', Plus Digit, Str '':'', Plus Digit, Str '':'', Plus Digit,
                     Str '' '', Plus AnyChar, Str '' ('', Plus Digit, Str ''/'', Plus Digit,
                     Str ''/'', Plus Digit, Str '')''] line of
        Some [sp, h, c1, m, c2, s, sp1, txt, par, g1, s1, g2, s2, g3, par1] \<Rightarrow>
          Some (g1, g2, g3)
      | _ \<Rightarrow> None)"

text \<open>
  The pattern \<^verbatim>\<open>\ ?(\d+:\d+:\d+) .+ (\w+): "(.+)" (\w+)@(.+)\<close> of a license
  event; the result holds its groups 1 to 5: time, state, module, user and machine.
\<close>

definition match_event ::
  "string \<Rightarrow> (string \<times> string \<times> string \<times> string \<times> string) option" where
  "match_event line =
     (case re_match [Opt CHR '' '', Plus Digit, Str '':'', Plus Digit, Str '':'', Plus Digit,
                     Str '' '', Plus AnyChar, Str '' '', Plus Word, Str '': \"'',
                     Plus AnyChar, Str ''\" '', Plus Word, Str ''@'', Plus AnyChar] line of
        Some [sp, h, c1, m, c2, s, sp1, txt, sp2, g2, q1, g3, q2, g4, at, g5] \<Rightarrow>
          Some (h @ c1 @ m @ c2 @ s, g2, g3, g4, g5)
      | _ \<Rightarrow> None)"

text \<open>
  The pattern \<^verbatim>\<open>\ ?\d+:\d+:\d+ .+ TIMESTAMP (\d+)\/(\d+)\/(\d+)\<close>; the result
  holds its groups 1, 2 and 3.
\<close>

definition match_timestamp :: "string \<Rightarrow> (string \<times> string \<times> string) option" where
  "match_timestamp line =
     (case re_match [Opt CHR '' '', Plus Digit, Str '':'', Plus Digit, Str '':'', Plus Digit,
                     Str '' '', Plus AnyChar, Str '' TIMESTAMP '', Plus Digit, Str ''/'',
                     Plus Digit, Str ''/'', Plus Digit] line of
        Some [sp, h, c1, m, c2, s, sp1, txt, ts, g1, s1, g2, s2, g3] \<Rightarrow> Some (g1, g2, g3)
      | _ \<Rightarrow> None)"

section \<open>Reading the log files\<close>

text \<open>
  The variables of \<open>read_files\<close> while it reads a file:
  \<open>(result_list, nb_days, date_matched, date, old_date)\<close>.  The body of the inner
  loop, for one line:
\<close>

type_synonym read_state = "event list \<times> int \<times> bool \<times> string \<times> string"

fun read_line :: "read_state \<Rightarrow> string \<Rightarrow> read_state" where
  "read_line (result_list, nb_days, date_matched, date, old_date) line =
     (let (date, date_matched) =
            (if date_matched = False
             then (case match_start_date line of
                     Some (g1, g2, g3) \<Rightarrow> (g3 @ ''/'' @ g1 @ ''/'' @ g2, True)
                   | None \<Rightarrow> (date, date_matched))
             else (date, date_matched))
      in case match_event line of
           Some (time, state, module, user, machine) \<Rightarrow>
             (result_list @ [(date, time, state, module, user, machine)],
              nb_days, date_matched, date, old_date)
         | None \<Rightarrow>
             (case match_timestamp line of
                Some (g1, g2, g3) \<Rightarrow>
                  (let date = g3 @ ''/'' @ g1 @ ''/'' @ g2
                   in if date \<noteq> old_date
                      then (result_list, nb_days + 1, date_matched, date, date)
                      else (result_list, nb_days, date_matched, date, old_date))
              | None \<Rightarrow> (result_list, nb_days, date_matched, date, old_date)))"

fun read_lines :: "read_state \<Rightarrow> string list \<Rightarrow> read_state" where
  "read_lines s [] = s"
| "read_lines s (line # inode) = read_lines (read_line s line) inode"

text \<open>
  A file is the list of its lines; opening and decompressing it is outside the model.
  Entering a file assigns \<open>date\<close> and \<open>old_date\<close> anew; \<open>result_list\<close>, \<open>nb_days\<close>
  and \<open>date_matched\<close> are set once, before the first file.
\<close>

definition enter_file :: "event list \<times> int \<times> bool \<Rightarrow> read_state" where
  "enter_file s = (case s of (result_list, nb_days, date_matched) \<Rightarrow>
     (result_list, nb_days, date_matched, ''??/??/????'', []))"

definition read_one_file :: "event list \<times> int \<times> bool \<Rightarrow> string list \<Rightarrow> read_state" where
  "read_one_file s inode = read_lines (enter_file s) inode"

fun files_loop ::
  "event list \<times> int \<times> bool \<Rightarrow> string list list \<Rightarrow> event list \<times> int \<times> bool" where
  "files_loop s [] = s"
| "files_loop s (a_file # files) =
     (case read_one_file s a_file of
        (result_list, nb_days, date_matched, date, old_date) \<Rightarrow>
          files_loop (result_list, nb_days, date_matched) files)"

definition read_files :: "string list list \<Rightarrow> int \<times> event list" where
  "read_files files =
     (case files_loop ([], 0, False) files of
        (result_list, nb_days, date_matched) \<Rightarrow> (nb_days, result_list))"

section \<open>The main program\<close>

text \<open>
  \<open>Options\<close> sets \<open>out\<close> from the two flags of the command line, \<open>--stats\<close> last.
\<close>

definition options_out :: "bool \<Rightarrow> bool \<Rightarrow> string" where
  "options_out gnuplot stats =
     (let out = ''None'';
          out = (if gnuplot then ''gnuplot'' else out);
          out = (if stats then ''stat'' else out)
      in out)"

text \<open>
  What a run leaves behind: nothing, the printed statistics, or the report directory
  with its data files (\<open>gnuplot\<close> is then run on them).
\<close>

datatype run_output =
    NoOutput
  | Printed stats_report
  | Report string "(string \<times> series) list"

definition main :: "string \<Rightarrow> string \<Rightarrow> string list list \<Rightarrow> py_error + run_output" where
  "main out report files =
     (case read_files files of
        (nb_days, result_list) \<Rightarrow>
          if length result_list > 1 then
            (if out = ''stat'' then
               (case output_stats nb_days result_list of
                  Inl err \<Rightarrow> Inl err
                | Inr printed \<Rightarrow> Inr (Printed printed))
             else if out = ''gnuplot'' \<and> nb_days > 0 then
               (case output_gnuplot result_list of
                  Inl err \<Rightarrow> Inl err
                | Inr files \<Rightarrow> Inr (Report (report @ ''_report'') files))
             else Inr NoOutput)
          else Inr NoOutput)"

section \<open>Reading off the results\<close>

text \<open>
  The components of an event and of the tuple kept for a module, and the part of the
  loop body of \<open>do_some_stats\<close> that computes the new tuple of the event's module
  from its date and state.  \<open>module_fold\<close> applies it to the events of one module,
  \<open>entry\<close> reads the tuple of a module and gives the initial tuple when the module
  has none yet.
\<close>

definition init_stats :: module_stats where
  "init_stats = (0, 999999999999, '''', 0, 0, 0, ''XXXXXXX'')"

fun update_module_stats :: "string \<Rightarrow> string \<Rightarrow> module_stats \<Rightarrow> module_stats" where
  "update_module_stats date state
     (max_users, min_users, max_day, nb_users, total_use, nb_days, old_date) =
     (let (nb_days, old_date) =
            (if date \<noteq> old_date \<and> lower state = ''out''
             then (nb_days + 1, date) else (nb_days, old_date));
          (nb_users, total_use) = count_users_upon_state state nb_users total_use;
          (min_users, max_users, max_day) =
            get_min_max_users nb_users min_users max_users date max_day
      in (max_users, min_users, max_day, nb_users, total_use, nb_days, old_date))"

definition entry :: "(string \<rightharpoonup> module_stats) \<Rightarrow> string \<Rightarrow> module_stats" where
  "entry stats m = (case stats m of None \<Rightarrow> init_stats | Some t \<Rightarrow> t)"

fun module_fold :: "string \<Rightarrow> module_stats \<Rightarrow> event list \<Rightarrow> module_stats" where
  "module_fold m t [] = t"
| "module_fold m t ((date, time, state, module, user, machine) # rest) =
     module_fold m (if module = m then update_module_stats date state t else t) rest"

fun nb_users_of :: "module_stats \<Rightarrow> int" where
  "nb_users_of (max_users, min_users, max_day, nb_users, total_use, nb_days, old_date) = nb_users"
fun total_use_of :: "module_stats \<Rightarrow> int" where
  "total_use_of (max_users, min_users, max_day, nb_users, total_use, nb_days, old_date) = total_use"
fun nb_days_of :: "module_stats \<Rightarrow> int" where
  "nb_days_of (max_users, min_users, max_day, nb_users, total_use, nb_days, old_date) = nb_days"
fun old_date_of :: "module_stats \<Rightarrow> string" where
  "old_date_of (max_users, min_users, max_day, nb_users, total_use, nb_days, old_date) = old_date"

fun module_of :: "event \<Rightarrow> string" where
  "module_of (date, time, state, module, user, machine) = module"
fun state_of :: "event \<Rightarrow> string" where
  "state_of (date, time, state, module, user, machine) = state"
fun date_of :: "event \<Rightarrow> string" where
  "date_of (date, time, state, module, user, machine) = date"

text \<open>
  Check-outs and check-ins of a module, the dates of its check-outs, and the tuple and
  total that a run of \<open>do_some_stats\<close> holds for a module (no tuple: the module
  has no statistics; its total then reads 0).
\<close>

definition checkout_of :: "string \<Rightarrow> event \<Rightarrow> bool" where
  "checkout_of m e = (module_of e = m \<and> lower (state_of e) = ''out'')"

definition checkin_of :: "string \<Rightarrow> event \<Rightarrow> bool" where
  "checkin_of m e = (module_of e = m \<and> lower (state_of e) = ''in'')"

definition module_entry ::
  "py_error + ((string \<rightharpoonup> module_stats) \<times> string list) \<Rightarrow> string \<Rightarrow> module_stats option" where
  "module_entry r m = (case r of Inl err \<Rightarrow> None | Inr (stats, module_list) \<Rightarrow> stats m)"

definition checkout_dates :: "string \<Rightarrow> event list \<Rightarrow> string list" where
  "checkout_dates m es = map date_of (filter (checkout_of m) es)"

definition total_use_in ::
  "py_error + ((string \<rightharpoonup> module_stats) \<times> string list) \<Rightarrow> string \<Rightarrow> int" where
  "total_use_in r m = (case module_entry r m of None \<Rightarrow> 0 | Some t \<Rightarrow> total_use_of t)"

text \<open>
  What the log says about a key, without reference to the set of the deduplicator: the
  key of an event, the events that are a check-out or a check-in of a key, and whether
  a key is open after a list of events, that is, whether the last check-out or
  check-in of the key in the list is a check-out (\<open>before\<close> when the list has
  none).
\<close>

fun key_of :: "event \<Rightarrow> string" where
  "key_of (date, time, state, module, user, machine) = dedup_key module user machine"

definition moves_key :: "string \<Rightarrow> event \<Rightarrow> bool" where
  "moves_key k e =
     (key_of e = k \<and> (lower (state_of e) = ''out'' \<or> lower (state_of e) = ''in''))"

definition key_open :: "bool \<Rightarrow> string \<Rightarrow> event list \<Rightarrow> bool" where
  "key_open before k pre =
     (case rev (filter (moves_key k) pre) of
        [] \<Rightarrow> before
      | e # earlier \<Rightarrow> lower (state_of e) = ''out'')"

text \<open>
  The same for the time series: the value \<open>do_gnuplot_stats\<close> computes for the
  \<open>use\<close> of a new entry from the list it has so far, the loop body restricted to
  the events of one module, the list of a module (empty when the module has none), and
  the rows of the data file that \<open>print_gnuplot\<close> writes for a module.
\<close>

fun time_of :: "event \<Rightarrow> string" where
  "time_of (date, time, state, module, user, machine) = time"

fun use_of :: "string \<times> string \<times> int \<Rightarrow> int" where
  "use_of (some_date, some_time, use) = use"

fun next_use :: "series \<Rightarrow> string \<Rightarrow> int" where
  "next_use [] state = init_use_upon_state state"
| "next_use ((some_date, some_time, use) # older) state = update_use_value_upon_state state use"

fun series_fold :: "string \<Rightarrow> series \<Rightarrow> event list \<Rightarrow> series" where
  "series_fold m event_list [] = event_list"
| "series_fold m event_list ((date, time, state, module, user, machine) # rest) =
     series_fold m (if module = m then (date, time, next_use event_list state) # event_list
                    else event_list) rest"

definition series_entry :: "(string \<rightharpoonup> series) \<Rightarrow> string \<Rightarrow> series" where
  "series_entry stats m = (case stats m of None \<Rightarrow> [] | Some event_list \<Rightarrow> event_list)"

definition dat_rows :: "py_error + (string \<times> series) list \<Rightarrow> string \<Rightarrow> series option" where
  "dat_rows r m = (case r of Inl err \<Rightarrow> None | Inr files \<Rightarrow> map_of files (m @ ''.dat''))"

definition nb_users_in ::
  "py_error + ((string \<rightharpoonup> module_stats) \<times> string list) \<Rightarrow> string \<Rightarrow> int" where
  "nb_users_in r m = (case module_entry r m of None \<Rightarrow> 0 | Some t \<Rightarrow> nb_users_of t)"

definition nb_days_in ::
  "py_error + ((string \<rightharpoonup> module_stats) \<times> string list) \<Rightarrow> string \<Rightarrow> int" where
  "nb_days_in r m = (case module_entry r m of None \<Rightarrow> 0 | Some t \<Rightarrow> nb_days_of t)"

definition rows_of :: "py_error + (string \<times> series) list \<Rightarrow> string \<Rightarrow> series" where
  "rows_of r m = (case dat_rows r m of None \<Rightarrow> [] | Some rows \<Rightarrow> rows)"

text \<open>
  For \<open>read_files\<close>: the date that a line sets as a timestamp line (a line that the
  event pattern does not match and the timestamp pattern does), the dates of the
  timestamp lines of a file in order, the value of \<open>date_matched\<close> after a list of
  files, and the events and the days that one file adds when it is read with a given
  value of \<open>date_matched\<close>.
\<close>

definition timestamp_date :: "string \<Rightarrow> string option" where
  "timestamp_date line =
     (case match_event line of
        Some g \<Rightarrow> None
      | None \<Rightarrow>
          (case match_timestamp line of
             Some (g1, g2, g3) \<Rightarrow> Some (g3 @ ''/'' @ g1 @ ''/'' @ g2)
           | None \<Rightarrow> None))"

definition timestamp_dates :: "string list \<Rightarrow> string list" where
  "timestamp_dates inode = List.map_filter timestamp_date inode"




section \<open>Properties of the deduplicator\<close>

lemma deduplicate_out:
  "lower state = ''out'' \<Longrightarrow>
   deduplicate S state m u h =
     (if dedup_key m u h \<in> S then (True, S) else (False, insert (dedup_key m u h) S))"
  by (simp add: deduplicate_def dedup_key_def)

lemma deduplicate_in:
  "lower state = ''in'' \<Longrightarrow>
   deduplicate S state m u h =
     (if dedup_key m u h \<in> S then (False, S - {dedup_key m u h}) else (True, S))"
  by (simp add: deduplicate_def dedup_key_def)

lemma deduplicate_other:
  "lower state \<noteq> ''out'' \<Longrightarrow> lower state \<noteq> ''in'' \<Longrightarrow>
   deduplicate S state m u h = (False, S)"
  by (simp add: deduplicate_def)

lemma accepted_append:
  "accepted S (xs @ ys) = accepted S xs @ accepted (dedup_after S xs) ys"
proof (induction xs arbitrary: S)
  case Nil
  show ?case by simp
next
  case (Cons e xs)
  obtain d t st m u h where e: "e = (d, t, st, m, u, h)" by (cases e) auto
  show ?case
    by (simp add: e Cons.IH split: prod.splits bool.splits)
qed

lemma dedup_after_append:
  "dedup_after S (xs @ ys) = dedup_after (dedup_after S xs) ys"
  by (induction xs arbitrary: S) auto

lemma in_not_out: "lower st = ''in'' \<Longrightarrow> lower st \<noteq> ''out''"
  by auto

lemma dedup_after_snoc:
  "dedup_after S (pre @ [(d, t, st, m, u, h)]) =
     snd (deduplicate (dedup_after S pre) st m u h)"
  by (simp add: dedup_after_append)

lemma key_open_snoc:
  "key_open b k (pre @ [e]) =
     (if moves_key k e then lower (state_of e) = ''out'' else key_open b k pre)"
  by (simp add: key_open_def)

lemma dedup_after_history:
  "(k \<in> dedup_after S pre) = key_open (k \<in> S) k pre"
proof (induction pre rule: rev_induct)
  case Nil
  show ?case by (simp add: key_open_def)
next
  case (snoc e pre)
  obtain d t st m u h where e: "e = (d, t, st, m, u, h)" by (cases e) auto
  consider (out) "lower st = ''out''" | (inn) "lower st = ''in''"
    | (other) "lower st \<noteq> ''out''" "lower st \<noteq> ''in''" by blast
  then show ?case
  proof cases
    case out
    show ?thesis
      unfolding e dedup_after_snoc key_open_snoc
      using snoc.IH out by (auto simp: deduplicate_out moves_key_def)
  next
    case inn
    show ?thesis
      unfolding e dedup_after_snoc key_open_snoc
      using snoc.IH inn in_not_out [OF inn] by (auto simp: deduplicate_in moves_key_def)
  next
    case other
    show ?thesis
      unfolding e dedup_after_snoc key_open_snoc
      using snoc.IH other by (auto simp: deduplicate_other moves_key_def)
  qed
qed

lemma key_open_after_out:
  assumes "lower so = ''out''"
    and "\<forall>x \<in> set mid. \<not> (key_of x = dedup_key m u h \<and> lower (state_of x) = ''in'')"
  shows "key_open b (dedup_key m u h) (pre @ (d, t, so, m, u, h) # mid)"
  using assms(2)
proof (induction mid rule: rev_induct)
  case Nil
  show ?case using assms(1) key_open_snoc [of b "dedup_key m u h" pre "(d, t, so, m, u, h)"]
    by (simp add: moves_key_def)
next
  case (snoc x mid)
  have a: "\<forall>x \<in> set mid. \<not> (key_of x = dedup_key m u h \<and> lower (state_of x) = ''in'')"
    using snoc.prems by simp
  have b: "\<not> (key_of x = dedup_key m u h \<and> lower (state_of x) = ''in'')"
    using snoc.prems by simp
  have "key_open b (dedup_key m u h) ((pre @ (d, t, so, m, u, h) # mid) @ [x])"
    unfolding key_open_snoc using snoc.IH [OF a] b by (auto simp: moves_key_def)
  then show ?case by simp
qed

text \<open>
  Claim C2.  After any earlier events \<open>pre\<close>, and for any content \<open>S\<close> of the
  set when the loop starts (the code starts with the empty set), a key is in the set
  exactly when it is open in the log: the last check-out or check-in of that key is a
  check-out.  Hence a check-out is dropped exactly when its key is open, so of two
  identical check-outs in a row the second is always dropped and exactly one is
  accepted when the key was not open before; a check-in is accepted exactly when its
  key is open, in particular after a check-out of its key followed by any events
  \<open>mid\<close> that hold no check-in of that key (events of other keys, or further
  check-outs of the key, do not matter); and a check-in whose key is not open is
  dropped.
\<close>

theorem deduplicate_open_keys:
  "(k \<in> dedup_after S pre) = key_open (k \<in> S) k pre \<and>
   (lower so = ''out'' \<longrightarrow>
      accepted S (pre @ [(d, t, so, m, u, h)]) =
      accepted S pre @
        (if key_open (dedup_key m u h \<in> S) (dedup_key m u h) pre then []
         else [(d, t, so, m, u, h)])) \<and>
   (lower so = ''out'' \<longrightarrow>
      accepted S (pre @ [(d, t, so, m, u, h), (d, t, so, m, u, h)]) =
      accepted S (pre @ [(d, t, so, m, u, h)])) \<and>
   (lower so = ''out'' \<and> \<not> key_open (dedup_key m u h \<in> S) (dedup_key m u h) pre \<longrightarrow>
      accepted S (pre @ [(d, t, so, m, u, h), (d, t, so, m, u, h)]) =
      accepted S pre @ [(d, t, so, m, u, h)]) \<and>
   (lower si = ''in'' \<longrightarrow>
      accepted S (pre @ [(d', t', si, m, u, h)]) =
      accepted S pre @
        (if key_open (dedup_key m u h \<in> S) (dedup_key m u h) pre then [(d', t', si, m, u, h)]
         else [])) \<and>
   (lower so = ''out'' \<and> lower si = ''in'' \<and>
    (\<forall>x \<in> set mid. \<not> (key_of x = dedup_key m u h \<and> lower (state_of x) = ''in'')) \<longrightarrow>
      accepted S (pre @ (d, t, so, m, u, h) # mid @ [(d', t', si, m, u, h)]) =
      accepted S (pre @ (d, t, so, m, u, h) # mid) @ [(d', t', si, m, u, h)]) \<and>
   (lower so = ''out'' \<and> dedup_key m u h \<in> S \<longrightarrow>
      deduplicate S so m u h = (True, S)) \<and>
   (lower si = ''in'' \<and> dedup_key m u h \<in> S \<longrightarrow>
      deduplicate S si m u h = (False, S - {dedup_key m u h})) \<and>
   (lower si = ''in'' \<and> dedup_key m u h \<notin> S \<longrightarrow>
      deduplicate S si m u h = (True, S))"
proof (intro conjI impI)
  show "(k \<in> dedup_after S pre) = key_open (k \<in> S) k pre"
    by (rule dedup_after_history)
next
  assume "lower so = ''out''"
  then show "accepted S (pre @ [(d, t, so, m, u, h)]) =
      accepted S pre @
        (if key_open (dedup_key m u h \<in> S) (dedup_key m u h) pre then []
         else [(d, t, so, m, u, h)])"
    using dedup_after_history [of "dedup_key m u h" S pre]
    by (simp add: accepted_append deduplicate_out)
next
  assume "lower so = ''out''"
  then show "accepted S (pre @ [(d, t, so, m, u, h), (d, t, so, m, u, h)]) =
      accepted S (pre @ [(d, t, so, m, u, h)])"
    by (simp add: accepted_append deduplicate_out)
next
  assume "lower so = ''out'' \<and> \<not> key_open (dedup_key m u h \<in> S) (dedup_key m u h) pre"
  then show "accepted S (pre @ [(d, t, so, m, u, h), (d, t, so, m, u, h)]) =
      accepted S pre @ [(d, t, so, m, u, h)]"
    using dedup_after_history [of "dedup_key m u h" S pre]
    by (simp add: accepted_append deduplicate_out)
next
  assume "lower si = ''in''"
  then show "accepted S (pre @ [(d', t', si, m, u, h)]) =
      accepted S pre @
        (if key_open (dedup_key m u h \<in> S) (dedup_key m u h) pre then [(d', t', si, m, u, h)]
         else [])"
    using dedup_after_history [of "dedup_key m u h" S pre]
    by (simp add: accepted_append deduplicate_in)
next
  assume a: "lower so = ''out'' \<and> lower si = ''in'' \<and>
    (\<forall>x \<in> set mid. \<not> (key_of x = dedup_key m u h \<and> lower (state_of x) = ''in''))"
  from a have so: "lower so = ''out''" by (rule conjunct1)
  from a have si: "lower si = ''in''" by (rule conjunct1 [OF conjunct2])
  from a have mid: "\<forall>x \<in> set mid. \<not> (key_of x = dedup_key m u h \<and> lower (state_of x) = ''in'')"
    by (rule conjunct2 [OF conjunct2])
  have op: "dedup_key m u h \<in> dedup_after S (pre @ (d, t, so, m, u, h) # mid)"
    unfolding dedup_after_history by (rule key_open_after_out [OF so mid])
  have "accepted S ((pre @ (d, t, so, m, u, h) # mid) @ [(d', t', si, m, u, h)]) =
      accepted S (pre @ (d, t, so, m, u, h) # mid) @ [(d', t', si, m, u, h)]"
    unfolding accepted_append [of S "pre @ (d, t, so, m, u, h) # mid"]
    using op si by (simp add: deduplicate_in)
  then show "accepted S (pre @ (d, t, so, m, u, h) # mid @ [(d', t', si, m, u, h)]) =
      accepted S (pre @ (d, t, so, m, u, h) # mid) @ [(d', t', si, m, u, h)]"
    by simp
next
  assume "lower so = ''out'' \<and> dedup_key m u h \<in> S"
  then show "deduplicate S so m u h = (True, S)"
    by (simp add: deduplicate_out)
next
  assume "lower si = ''in'' \<and> dedup_key m u h \<in> S"
  then show "deduplicate S si m u h = (False, S - {dedup_key m u h})"
    by (simp add: deduplicate_in)
next
  assume "lower si = ''in'' \<and> dedup_key m u h \<notin> S"
  then show "deduplicate S si m u h = (True, S)"
    by (simp add: deduplicate_in)
qed

theorem deduplicate_open_keys_witness:
  "lower ''OUT'' = ''out'' \<and> lower ''IN'' = ''in'' \<and>
   \<not> key_open (dedup_key ''A'' ''alice'' ''pc1'' \<in> {}) (dedup_key ''A'' ''alice'' ''pc1'') [] \<and>
   key_of (''d'', ''2'', ''OUT'', ''A'', ''bob'', ''pc2'') \<noteq> dedup_key ''A'' ''alice'' ''pc1'' \<and>
   accepted {} [(''d'', ''1'', ''OUT'', ''A'', ''alice'', ''pc1''),
                (''d'', ''1'', ''OUT'', ''A'', ''alice'', ''pc1'')] =
     [(''d'', ''1'', ''OUT'', ''A'', ''alice'', ''pc1'')] \<and>
   accepted {} [(''d'', ''1'', ''OUT'', ''A'', ''alice'', ''pc1''),
                (''d'', ''2'', ''OUT'', ''A'', ''bob'', ''pc2''),
                (''d'', ''3'', ''IN'', ''A'', ''alice'', ''pc1'')] =
     [(''d'', ''1'', ''OUT'', ''A'', ''alice'', ''pc1''),
      (''d'', ''2'', ''OUT'', ''A'', ''bob'', ''pc2''),
      (''d'', ''3'', ''IN'', ''A'', ''alice'', ''pc1'')] \<and>
   accepted {} [(''d'', ''3'', ''IN'', ''A'', ''alice'', ''pc1'')] = [] \<and>
   deduplicate {''A:alice@pc1''} ''OUT'' ''A'' ''alice'' ''pc1'' = (True, {''A:alice@pc1''}) \<and>
   deduplicate {''A:alice@pc1''} ''IN'' ''A'' ''alice'' ''pc1'' = (False, {}) \<and>
   deduplicate {} ''IN'' ''A'' ''alice'' ''pc1'' = (True, {})"
proof -
  have h1: "lower ''OUT'' = ''out''" by (simp add: lower_def lower_char_def)
  have h2: "lower ''IN'' = ''in''" by (simp add: lower_def lower_char_def)
  have h3: "\<not> key_open (dedup_key ''A'' ''alice'' ''pc1'' \<in> {}) (dedup_key ''A'' ''alice'' ''pc1'') []"
    by (simp add: key_open_def)
  have h4: "\<forall>x \<in> set [(''d'', ''2'', ''OUT'', ''A'', ''bob'', ''pc2'')].
      \<not> (key_of x = dedup_key ''A'' ''alice'' ''pc1'' \<and> lower (state_of x) = ''in'')"
    by (simp add: dedup_key_def)
  show ?thesis
    using h1 h2 h3 h4
      deduplicate_open_keys [where S = "{}" and pre = "[]" and so = "''OUT''" and si = "''IN''"
        and m = "''A''" and u = "''alice''" and h = "''pc1''" and d = "''d''" and t = "''1''"
        and d' = "''d''" and t' = "''3''"
        and mid = "[(''d'', ''2'', ''OUT'', ''A'', ''bob'', ''pc2'')]"]
      deduplicate_open_keys [where S = "{''A:alice@pc1''}" and pre = "[]" and so = "''OUT''"
        and si = "''IN''" and m = "''A''" and u = "''alice''" and h = "''pc1''"]
    by (simp add: dedup_key_def key_open_def deduplicate_def lower_def lower_char_def)
qed

section \<open>Properties of the summary statistics\<close>

lemma stats_body_drop:
  "deduplicate D st m u h = (True, D') \<Longrightarrow>
   stats_body (stats, ml, D) (d, t, st, m, u, h) = Inr (stats, ml, D')"
  by simp

lemma get_stats_known:
  "m \<in> set ml \<Longrightarrow> stats m = Some e \<Longrightarrow> get_stats_from_module stats ml m = Inr (stats, ml, e)"
  by (simp add: get_stats_from_module_def)

lemma get_stats_new:
  "m \<notin> set ml \<Longrightarrow>
   get_stats_from_module stats ml m = Inr (stats(m \<mapsto> init_stats), ml @ [m], init_stats)"
  by (simp add: get_stats_from_module_def init_stats_def)

lemma stats_body_step:
  assumes "deduplicate D st m u h = (False, D')"
    and "get_stats_from_module stats ml m = Inr (stats1, ml1, e)"
  shows "stats_body (stats, ml, D) (d, t, st, m, u, h) =
         Inr (stats1(m \<mapsto> update_module_stats d st e), ml1, D')"
proof -
  obtain a b c n tu nd od where e: "e = (a, b, c, n, tu, nd, od)" by (cases e) auto
  show ?thesis
    unfolding stats_body.simps assms(1) assms(2) e
    apply (simp only: prod.case bool.case sum.case update_module_stats.simps)
    apply (simp only: Let_def split_def sum.inject prod.inject)
    done
qed

declare stats_body.simps [simp del]

lemma stats_body_accept:
  assumes "set ml = dom stats" and "deduplicate D st m u h = (False, D')"
  shows "stats_body (stats, ml, D) (d, t, st, m, u, h) =
         Inr (stats(m \<mapsto> update_module_stats d st (entry stats m)),
              (if m \<in> set ml then ml else ml @ [m]), D')"
proof (cases "m \<in> set ml")
  case True
  with assms(1) obtain e where e: "stats m = Some e" by auto
  show ?thesis
    using stats_body_step [OF assms(2) get_stats_known [of m ml stats e, OF True e]] True e
    by (simp add: entry_def)
next
  case False
  with assms(1) have "stats m = None" by auto
  then show ?thesis
    using stats_body_step [OF assms(2) get_stats_new [of m ml stats, OF False]] False
    by (simp add: entry_def)
qed

lemma entry_upd:
  "entry (stats(m \<mapsto> v)) m' = (if m' = m then v else entry stats m')"
  by (simp add: entry_def)

lemma stats_loop_char:
  "set ml = dom stats \<Longrightarrow>
   \<exists>stats' ml'. stats_loop (stats, ml, D) es = Inr (stats', ml', dedup_after D es) \<and>
      set ml' = dom stats' \<and>
      dom stats' = dom stats \<union> module_of ` set (accepted D es) \<and>
      (\<forall>m. entry stats' m = module_fold m (entry stats m) (accepted D es))"
proof (induction es arbitrary: stats ml D)
  case Nil
  then show ?case by simp
next
  case (Cons e es)
  obtain d t st m u h where e: "e = (d, t, st, m, u, h)" by (cases e) auto
  obtain b D' where dd: "deduplicate D st m u h = (b, D')" by (cases "deduplicate D st m u h")
  show ?case
  proof (cases b)
    case True
    have acc: "accepted D (e # es) = accepted D' es" and aft: "dedup_after D (e # es) = dedup_after D' es"
      and body: "stats_body (stats, ml, D) e = Inr (stats, ml, D')"
      using dd True by (simp_all add: e stats_body_drop)
    from Cons.IH [OF Cons.prems, of D'] show ?thesis
      unfolding acc aft stats_loop.simps body by simp
  next
    case False
    define stats1 where "stats1 = stats(m \<mapsto> update_module_stats d st (entry stats m))"
    define ml1 where "ml1 = (if m \<in> set ml then ml else ml @ [m])"
    have inv: "set ml1 = dom stats1" using Cons.prems by (auto simp: stats1_def ml1_def)
    have acc: "accepted D (e # es) = e # accepted D' es" and aft: "dedup_after D (e # es) = dedup_after D' es"
      using dd False by (simp_all add: e)
    have body: "stats_body (stats, ml, D) e = Inr (stats1, ml1, D')"
      using stats_body_accept [OF Cons.prems, of D st m u h D' d t] dd False
      by (simp add: e stats1_def ml1_def)
    have "\<exists>stats' ml'. stats_loop (stats1, ml1, D') es = Inr (stats', ml', dedup_after D' es) \<and>
      set ml' = dom stats' \<and>
      dom stats' = dom stats1 \<union> module_of ` set (accepted D' es) \<and>
      (\<forall>m'. entry stats' m' = module_fold m' (entry stats1 m') (accepted D' es))"
      by (rule Cons.IH [OF inv])
    then obtain stats' ml' where
      H: "stats_loop (stats1, ml1, D') es = Inr (stats', ml', dedup_after D' es) \<and>
      set ml' = dom stats' \<and>
      dom stats' = dom stats1 \<union> module_of ` set (accepted D' es) \<and>
      (\<forall>m'. entry stats' m' = module_fold m' (entry stats1 m') (accepted D' es))"
      by (elim exE) (rule that)
    from H have loop: "stats_loop (stats1, ml1, D') es = Inr (stats', ml', dedup_after D' es)"
      by (rule conjunct1)
    from H have inv': "set ml' = dom stats'"
      by (rule conjunct1 [OF conjunct2])
    from H have dom': "dom stats' = dom stats1 \<union> module_of ` set (accepted D' es)"
      by (rule conjunct1 [OF conjunct2 [OF conjunct2]])
    from H have ent: "\<forall>m'. entry stats' m' = module_fold m' (entry stats1 m') (accepted D' es)"
      by (rule conjunct2 [OF conjunct2 [OF conjunct2]])
    have l: "stats_loop (stats, ml, D) (e # es) = Inr (stats', ml', dedup_after D (e # es))"
      unfolding aft stats_loop.simps body using loop by simp
    have d: "dom stats' = dom stats \<union> module_of ` set (accepted D (e # es))"
      unfolding acc dom' by (auto simp: stats1_def e)
    have f: "\<forall>m'. entry stats' m' = module_fold m' (entry stats m') (accepted D (e # es))"
      unfolding acc using ent by (simp add: e stats1_def entry_upd)
    show ?thesis
      by (intro exI conjI) (rule l, rule inv', rule d, rule f)
  qed
qed

lemma total_use_update:
  "total_use_of (update_module_stats d st t) =
   total_use_of t + (if lower st = ''out'' then 1 else 0)"
  by (cases t) (simp add: count_users_upon_state_def get_min_max_users_def Let_def)

lemma nb_users_update:
  "nb_users_of (update_module_stats d st t) =
   nb_users_of t + (if lower st = ''out'' then 1 else if lower st = ''in'' then - 1 else 0)"
  by (cases t) (simp add: count_users_upon_state_def get_min_max_users_def Let_def)

lemma nb_days_update:
  "nb_days_of (update_module_stats d st t) =
   nb_days_of t + (if d \<noteq> old_date_of t \<and> lower st = ''out'' then 1 else 0)"
  by (cases t) (simp add: count_users_upon_state_def get_min_max_users_def Let_def)

lemma old_date_update:
  "old_date_of (update_module_stats d st t) =
   (if lower st = ''out'' then d else old_date_of t)"
  by (cases t) (simp add: count_users_upon_state_def get_min_max_users_def Let_def)

lemma total_use_fold:
  "total_use_of (module_fold m t es) = total_use_of t + int (length (filter (checkout_of m) es))"
proof (induction es arbitrary: t)
  case Nil
  show ?case by simp
next
  case (Cons e es)
  obtain d ti st m' u h where e: "e = (d, ti, st, m', u, h)" by (cases e) auto
  show ?case by (simp add: e Cons.IH total_use_update checkout_of_def)
qed

lemma nb_users_fold:
  "nb_users_of (module_fold m t es) =
   nb_users_of t + int (length (filter (checkout_of m) es)) - int (length (filter (checkin_of m) es))"
proof (induction es arbitrary: t)
  case Nil
  show ?case by simp
next
  case (Cons e es)
  obtain d ti st m' u h where e: "e = (d, ti, st, m', u, h)" by (cases e) auto
  show ?case by (simp add: e Cons.IH nb_users_update checkout_of_def checkin_of_def)
qed

lemma nb_days_fold:
  "nb_days_of (module_fold m t es) =
     nb_days_of t +
     int (length (remdups_adj (old_date_of t # map date_of (filter (checkout_of m) es)))) - 1 \<and>
   old_date_of (module_fold m t es) =
     last (old_date_of t # map date_of (filter (checkout_of m) es))"
proof (induction es arbitrary: t)
  case Nil
  show ?case by simp
next
  case (Cons e es)
  obtain d ti st m' u h where e: "e = (d, ti, st, m', u, h)" by (cases e) auto
  show ?case
    by (simp add: e Cons.IH nb_days_update old_date_update checkout_of_def)
qed

lemma do_some_stats_char:
  "\<exists>stats ml. do_some_stats xs = Inr (stats, ml) \<and>
     dom stats = module_of ` set (accepted {} xs) \<and>
     (\<forall>m. entry stats m = module_fold m init_stats (accepted {} xs))"
proof -
  have "set [] = dom (Map.empty :: string \<rightharpoonup> module_stats)" by simp
  from stats_loop_char [OF this, of "{}" xs]
  obtain stats ml where
    H: "stats_loop (Map.empty, [], {}) xs = Inr (stats, ml, dedup_after {} xs) \<and>
        set ml = dom stats \<and>
        dom stats = dom (Map.empty :: string \<rightharpoonup> module_stats) \<union> module_of ` set (accepted {} xs) \<and>
        (\<forall>m. entry stats m = module_fold m (entry Map.empty m) (accepted {} xs))"
    by (elim exE) (rule that)
  have a: "do_some_stats xs = Inr (stats, ml)"
    using conjunct1 [OF H] by (simp add: do_some_stats_def)
  have b: "dom stats = module_of ` set (accepted {} xs)"
    using conjunct1 [OF conjunct2 [OF conjunct2 [OF H]]] by simp
  have c: "\<forall>m. entry stats m = module_fold m init_stats (accepted {} xs)"
    using conjunct2 [OF conjunct2 [OF conjunct2 [OF H]]] by (simp add: entry_def)
  show ?thesis
    by (intro exI conjI) (rule a, rule b, rule c)
qed

lemma module_entry_do_some_stats:
  "module_entry (do_some_stats xs) m =
   (if m \<in> module_of ` set (accepted {} xs)
    then Some (module_fold m init_stats (accepted {} xs)) else None)"
proof -
  from do_some_stats_char [of xs] obtain stats ml where
    H: "do_some_stats xs = Inr (stats, ml) \<and>
        dom stats = module_of ` set (accepted {} xs) \<and>
        (\<forall>m. entry stats m = module_fold m init_stats (accepted {} xs))"
    by (elim exE) (rule that)
  have a: "module_entry (do_some_stats xs) m = stats m"
    using conjunct1 [OF H] by (simp add: module_entry_def)
  have b: "dom stats = module_of ` set (accepted {} xs)"
    by (rule conjunct1 [OF conjunct2 [OF H]])
  have c: "entry stats m = module_fold m init_stats (accepted {} xs)"
    using conjunct2 [OF conjunct2 [OF H]] by simp
  show ?thesis
  proof (cases "stats m")
    case None
    then have "m \<notin> dom stats" by auto
    with None a b show ?thesis by simp
  next
    case (Some t)
    then have "m \<in> dom stats" by auto
    moreover from Some c have "t = module_fold m init_stats (accepted {} xs)"
      by (simp add: entry_def)
    ultimately show ?thesis using Some a b by simp
  qed
qed

lemma no_module_no_checkout:
  "m \<notin> module_of ` set es \<Longrightarrow> filter (checkout_of m) es = []"
  by (auto simp: checkout_of_def filter_empty_conv)

lemma total_use_in_do_some_stats:
  "total_use_in (do_some_stats xs) m = int (length (filter (checkout_of m) (accepted {} xs)))"
  by (simp add: total_use_in_def module_entry_do_some_stats total_use_fold init_stats_def
      no_module_no_checkout)

text \<open>
  Claim C7.  For every event list, \<open>do_some_stats\<close> returns without error; the
  \<open>total_use\<close> it holds for a module is the number of check-outs of that module
  among the events that passed deduplication (and there is a tuple for exactly the
  modules that have an accepted event), and the total of a module never decreases
  when the list is extended by further events.
\<close>

theorem total_use_counts_accepted_checkouts:
  "map_option total_use_of (module_entry (do_some_stats result_list) m) =
     (if m \<in> module_of ` set (accepted {} result_list)
      then Some (int (length (filter (checkout_of m) (accepted {} result_list))))
      else None) \<and>
   total_use_in (do_some_stats result_list) m \<le>
     total_use_in (do_some_stats (result_list @ more)) m"
  by (simp add: module_entry_do_some_stats total_use_fold init_stats_def
      total_use_in_do_some_stats accepted_append)

lemma remdups_adj_fresh:
  "s \<notin> set ds \<Longrightarrow> remdups_adj (s # ds) = s # remdups_adj ds"
  by (cases ds) auto

lemma nb_days_distinct:
  assumes "distinct (remdups_adj ds)" and "s \<notin> set ds"
  shows "int (length (remdups_adj (s # ds))) - 1 = int (card (set ds))"
proof -
  have "card (set ds) = card (set (remdups_adj ds))" by simp
  also have "\<dots> = length (remdups_adj ds)" using assms(1) by (rule distinct_card)
  finally show ?thesis using assms(2) by (simp add: remdups_adj_fresh)
qed

text \<open>
  Claim C4, amended.  The \<open>nb_days\<close> that \<open>do_some_stats\<close> holds for a module is
  the number of times the date changes along the accepted check-outs of the module,
  starting from the placeholder \<open>XXXXXXX\<close>: a date that comes back after another
  date is counted again.  It is the number of distinct dates of these check-outs when
  equal dates are adjacent in that sequence (as in one chronological log) and none of
  them is the placeholder.
\<close>

theorem nb_days_counts_date_changes:
  "map_option nb_days_of (module_entry (do_some_stats result_list) m) =
     (if m \<in> module_of ` set (accepted {} result_list)
      then Some (int (length (remdups_adj
              (''XXXXXXX'' # checkout_dates m (accepted {} result_list)))) - 1)
      else None) \<and>
   (m \<in> module_of ` set (accepted {} result_list) \<and>
    distinct (remdups_adj (checkout_dates m (accepted {} result_list))) \<and>
    ''XXXXXXX'' \<notin> set (checkout_dates m (accepted {} result_list)) \<longrightarrow>
    map_option nb_days_of (module_entry (do_some_stats result_list) m) =
      Some (int (card (set (checkout_dates m (accepted {} result_list))))))"
  by (simp add: module_entry_do_some_stats nb_days_fold init_stats_def checkout_dates_def
      nb_days_distinct)

theorem nb_days_counts_date_changes_witness:
  "''A'' \<in> module_of ` set (accepted {}
      [(''2012/7/30'', ''8:00:00'', ''OUT'', ''A'', ''u'', ''h''),
       (''2012/7/30'', ''9:00:00'', ''IN'', ''A'', ''u'', ''h''),
       (''2012/7/31'', ''8:00:00'', ''OUT'', ''A'', ''u'', ''h'')]) \<and>
   distinct (remdups_adj (checkout_dates ''A'' (accepted {}
      [(''2012/7/30'', ''8:00:00'', ''OUT'', ''A'', ''u'', ''h''),
       (''2012/7/30'', ''9:00:00'', ''IN'', ''A'', ''u'', ''h''),
       (''2012/7/31'', ''8:00:00'', ''OUT'', ''A'', ''u'', ''h'')]))) \<and>
   ''XXXXXXX'' \<notin> set (checkout_dates ''A'' (accepted {}
      [(''2012/7/30'', ''8:00:00'', ''OUT'', ''A'', ''u'', ''h''),
       (''2012/7/30'', ''9:00:00'', ''IN'', ''A'', ''u'', ''h''),
       (''2012/7/31'', ''8:00:00'', ''OUT'', ''A'', ''u'', ''h'')])) \<and>
   map_option nb_days_of (module_entry (do_some_stats
      [(''2012/7/30'', ''8:00:00'', ''OUT'', ''A'', ''u'', ''h''),
       (''2012/7/30'', ''9:00:00'', ''IN'', ''A'', ''u'', ''h''),
       (''2012/7/31'', ''8:00:00'', ''OUT'', ''A'', ''u'', ''h'')]) ''A'') = Some 2"
  using nb_days_counts_date_changes [where m = "''A''" and result_list =
      "[(''2012/7/30'', ''8:00:00'', ''OUT'', ''A'', ''u'', ''h''),
        (''2012/7/30'', ''9:00:00'', ''IN'', ''A'', ''u'', ''h''),
        (''2012/7/31'', ''8:00:00'', ''OUT'', ''A'', ''u'', ''h'')]"]
  by (simp add: deduplicate_def lower_def lower_char_def checkout_dates_def checkout_of_def)

text \<open>
  Claim C4 as stated fails: three accepted check-outs of one module dated 30 July,
  31 July and 30 July again give \<open>nb_days = 3\<close> for two distinct dates.
\<close>

theorem nb_days_distinct_dates_counterexample:
  "module_entry (do_some_stats
      [(''2012/7/30'', ''8:00:00'', ''OUT'', ''A'', ''u1'', ''h''),
       (''2012/7/31'', ''8:00:00'', ''OUT'', ''A'', ''u2'', ''h''),
       (''2012/7/30'', ''9:00:00'', ''OUT'', ''A'', ''u3'', ''h'')]) ''A'' =
     Some (3, 1, ''2012/7/30'', 3, 3, 3, ''2012/7/30'') \<and>
   card (set (checkout_dates ''A'' (accepted {}
      [(''2012/7/30'', ''8:00:00'', ''OUT'', ''A'', ''u1'', ''h''),
       (''2012/7/31'', ''8:00:00'', ''OUT'', ''A'', ''u2'', ''h''),
       (''2012/7/30'', ''9:00:00'', ''OUT'', ''A'', ''u3'', ''h'')]))) = 2"
  by (simp add: module_entry_def do_some_stats_def stats_body.simps deduplicate_def
      get_stats_from_module_def count_users_upon_state_def get_min_max_users_def
      lower_def lower_char_def checkout_dates_def checkout_of_def card_insert_if)

section \<open>Properties of the time series\<close>

lemma gnuplot_body_drop:
  "deduplicate D st m u h = (True, D') \<Longrightarrow>
   gnuplot_body (stats, ml, D) (d, t, st, m, u, h) = Inr (stats, ml, D')"
  by simp

lemma gnuplot_body_accept:
  assumes "set ml = dom stats" and "deduplicate D st m u h = (False, D')"
  shows "gnuplot_body (stats, ml, D) (d, t, st, m, u, h) =
         Inr (stats(m \<mapsto> (d, t, next_use (series_entry stats m) st) # series_entry stats m),
              (if m \<in> set ml then ml else ml @ [m]), D')"
proof (cases "m \<in> set ml")
  case True
  with assms(1) obtain el where el: "stats m = Some el" by auto
  show ?thesis
  proof (cases el)
    case Nil
    with True el assms(2) show ?thesis by (simp add: series_entry_def)
  next
    case (Cons x older)
    obtain sd sti use where "x = (sd, sti, use)" by (cases x) auto
    with Cons True el assms(2) show ?thesis by (simp add: series_entry_def)
  qed
next
  case False
  with assms(1) have "stats m = None" by auto
  with False assms(2) show ?thesis by (simp add: series_entry_def)
qed

declare gnuplot_body.simps [simp del]

lemma series_entry_upd:
  "series_entry (stats(m \<mapsto> v)) m' = (if m' = m then v else series_entry stats m')"
  by (simp add: series_entry_def)

lemma gnuplot_loop_char:
  "set ml = dom stats \<Longrightarrow> distinct ml \<Longrightarrow>
   \<exists>stats' ml'. gnuplot_loop (stats, ml, D) es = Inr (stats', ml', dedup_after D es) \<and>
      set ml' = dom stats' \<and> distinct ml' \<and>
      dom stats' = dom stats \<union> module_of ` set (accepted D es) \<and>
      (\<forall>m. series_entry stats' m = series_fold m (series_entry stats m) (accepted D es))"
proof (induction es arbitrary: stats ml D)
  case Nil
  then show ?case by simp
next
  case (Cons e es)
  obtain d t st m u h where e: "e = (d, t, st, m, u, h)" by (cases e) auto
  obtain b D' where dd: "deduplicate D st m u h = (b, D')" by (cases "deduplicate D st m u h")
  show ?case
  proof (cases b)
    case True
    have acc: "accepted D (e # es) = accepted D' es" and aft: "dedup_after D (e # es) = dedup_after D' es"
      and body: "gnuplot_body (stats, ml, D) e = Inr (stats, ml, D')"
      using dd True by (simp_all add: e gnuplot_body_drop)
    from Cons.IH [OF Cons.prems, of D'] show ?thesis
      unfolding acc aft gnuplot_loop.simps body by simp
  next
    case False
    define stats1 where
      "stats1 = stats(m \<mapsto> (d, t, next_use (series_entry stats m) st) # series_entry stats m)"
    define ml1 where "ml1 = (if m \<in> set ml then ml else ml @ [m])"
    have inv: "set ml1 = dom stats1" using Cons.prems by (auto simp: stats1_def ml1_def)
    have dist: "distinct ml1" using Cons.prems by (simp add: ml1_def)
    have acc: "accepted D (e # es) = e # accepted D' es" and aft: "dedup_after D (e # es) = dedup_after D' es"
      using dd False by (simp_all add: e)
    have body: "gnuplot_body (stats, ml, D) e = Inr (stats1, ml1, D')"
      using gnuplot_body_accept [OF Cons.prems(1), of D st m u h D' d t] dd False
      by (simp add: e stats1_def ml1_def)
    have "\<exists>stats' ml'. gnuplot_loop (stats1, ml1, D') es = Inr (stats', ml', dedup_after D' es) \<and>
      set ml' = dom stats' \<and> distinct ml' \<and>
      dom stats' = dom stats1 \<union> module_of ` set (accepted D' es) \<and>
      (\<forall>m'. series_entry stats' m' = series_fold m' (series_entry stats1 m') (accepted D' es))"
      by (rule Cons.IH [OF inv dist])
    then obtain stats' ml' where
      H: "gnuplot_loop (stats1, ml1, D') es = Inr (stats', ml', dedup_after D' es) \<and>
      set ml' = dom stats' \<and> distinct ml' \<and>
      dom stats' = dom stats1 \<union> module_of ` set (accepted D' es) \<and>
      (\<forall>m'. series_entry stats' m' = series_fold m' (series_entry stats1 m') (accepted D' es))"
      by (elim exE) (rule that)
    from H have loop: "gnuplot_loop (stats1, ml1, D') es = Inr (stats', ml', dedup_after D' es)"
      by (rule conjunct1)
    from H have inv': "set ml' = dom stats'"
      by (rule conjunct1 [OF conjunct2])
    from H have dist': "distinct ml'"
      by (rule conjunct1 [OF conjunct2 [OF conjunct2]])
    from H have dom': "dom stats' = dom stats1 \<union> module_of ` set (accepted D' es)"
      by (rule conjunct1 [OF conjunct2 [OF conjunct2 [OF conjunct2]]])
    from H have ent: "\<forall>m'. series_entry stats' m' = series_fold m' (series_entry stats1 m') (accepted D' es)"
      by (rule conjunct2 [OF conjunct2 [OF conjunct2 [OF conjunct2]]])
    have l: "gnuplot_loop (stats, ml, D) (e # es) = Inr (stats', ml', dedup_after D (e # es))"
      unfolding aft gnuplot_loop.simps body using loop by simp
    have dm: "dom stats' = dom stats \<union> module_of ` set (accepted D (e # es))"
      unfolding acc dom' by (auto simp: stats1_def e)
    have f: "\<forall>m'. series_entry stats' m' = series_fold m' (series_entry stats m') (accepted D (e # es))"
      unfolding acc using ent by (simp add: e stats1_def series_entry_upd)
    show ?thesis
      by (intro exI conjI) (rule l, rule inv', rule dist', rule dm, rule f)
  qed
qed

lemma print_gnuplot_char:
  "distinct ml \<Longrightarrow> set ml \<subseteq> dom stats \<Longrightarrow>
   print_gnuplot stats ml = Inr (map (\<lambda>m. (m @ ''.dat'', rev (series_entry stats m))) ml)"
proof (induction ml arbitrary: stats)
  case Nil
  show ?case by simp
next
  case (Cons m ml)
  from Cons.prems obtain el where el: "stats m = Some el" by auto
  have d: "distinct ml" and s: "set ml \<subseteq> dom (stats(m \<mapsto> rev el))" and n: "m \<notin> set ml"
    using Cons.prems by auto
  have same: "map (\<lambda>m'. (m' @ ''.dat'', rev (series_entry (stats(m \<mapsto> rev el)) m'))) ml =
              map (\<lambda>m'. (m' @ ''.dat'', rev (series_entry stats m'))) ml"
    using n by (auto simp: series_entry_upd)
  have ih: "print_gnuplot (stats(m \<mapsto> rev el)) ml =
            Inr (map (\<lambda>m'. (m' @ ''.dat'', rev (series_entry (stats(m \<mapsto> rev el)) m'))) ml)"
    by (rule Cons.IH [OF d s])
  have step: "print_gnuplot stats (m # ml) =
      (case print_gnuplot (stats(m \<mapsto> rev el)) ml of
         Inl err \<Rightarrow> Inl err
       | Inr files \<Rightarrow> Inr ((m @ ''.dat'', rev el) # files))"
    using el by (simp add: Let_def)
  have hd: "series_entry stats m = el" using el by (simp add: series_entry_def)
  show ?case
    unfolding step ih same by (simp add: hd)
qed

lemma series_fold_filter:
  "series_fold m el (filter (\<lambda>e. module_of e = m) es) = series_fold m el es"
proof (induction es arbitrary: el)
  case Nil
  show ?case by simp
next
  case (Cons e es)
  obtain d t st m' u h where e: "e = (d, t, st, m', u, h)" by (cases e) auto
  show ?case by (simp add: e Cons.IH)
qed

lemma series_fold_append:
  "series_fold m el (xs @ ys) = series_fold m (series_fold m el xs) ys"
proof (induction xs arbitrary: el)
  case Nil
  show ?case by simp
next
  case (Cons e es)
  obtain d t st m' u h where e: "e = (d, t, st, m', u, h)" by (cases e) auto
  show ?case by (simp add: e Cons.IH)
qed

lemma series_fold_suffix:
  "\<exists>new. series_fold m el es = new @ el"
proof (induction es arbitrary: el)
  case Nil
  show ?case by simp
next
  case (Cons e es)
  obtain d t st m' u h where e: "e = (d, t, st, m', u, h)" by (cases e) auto
  show ?case
  proof (cases "m' = m")
    case True
    from Cons.IH [of "(d, t, next_use el st) # el"] obtain new where
      "series_fold m ((d, t, next_use el st) # el) es = new @ (d, t, next_use el st) # el"
      by (elim exE) (rule that)
    then have "series_fold m el (e # es) = (new @ [(d, t, next_use el st)]) @ el"
      using True by (simp add: e)
    then show ?thesis by (rule exI)
  next
    case False
    then show ?thesis using Cons.IH [of el] by (simp add: e)
  qed
qed

lemma series_fold_times:
  "map (\<lambda>r. (fst r, fst (snd r))) (rev (series_fold m el es)) =
   map (\<lambda>r. (fst r, fst (snd r))) (rev el) @
   map (\<lambda>e. (date_of e, time_of e)) (filter (\<lambda>e. module_of e = m) es)"
proof (induction es arbitrary: el)
  case Nil
  show ?case by simp
next
  case (Cons e es)
  obtain d t st m' u h where e: "e = (d, t, st, m', u, h)" by (cases e) auto
  show ?case by (simp add: e Cons.IH)
qed

lemma next_use_nonempty:
  "el \<noteq> [] \<Longrightarrow> next_use el st =
     use_of (hd el) + (if lower st = ''out'' then 1 else if lower st = ''in'' then - 1 else 0)"
proof (cases el)
  case Nil
  assume "el \<noteq> []"
  with Nil show ?thesis by simp
next
  case (Cons x older)
  obtain sd sti use where "x = (sd, sti, use)" by (cases x) auto
  with Cons show ?thesis by (simp add: update_use_value_upon_state_def)
qed

lemma checkout_of_event:
  "checkout_of m (d, t, st, m', u, h) = (m' = m \<and> lower st = ''out'')"
  by (simp add: checkout_of_def)

lemma checkin_of_event:
  "checkin_of m (d, t, st, m', u, h) = (m' = m \<and> lower st = ''in'')"
  by (simp add: checkin_of_def)

lemma series_fold_use:
  "el \<noteq> [] \<Longrightarrow>
   use_of (hd (series_fold m el es)) =
   use_of (hd el) + int (length (filter (checkout_of m) es))
                  - int (length (filter (checkin_of m) es))"
proof (induction es arbitrary: el)
  case Nil
  show ?case by simp
next
  case (Cons e es)
  obtain d t st m' u h where e: "e = (d, t, st, m', u, h)" by (cases e) auto
  show ?case
  proof (cases "m' = m")
    case True
    have "use_of (hd (series_fold m ((d, t, next_use el st) # el) es)) =
          use_of (hd ((d, t, next_use el st) # el))
            + int (length (filter (checkout_of m) es))
            - int (length (filter (checkin_of m) es))"
      by (rule Cons.IH) simp
    then show ?thesis
      using True Cons.prems
      by (simp add: e next_use_nonempty checkout_of_event checkin_of_event)
  next
    case False
    then show ?thesis
      using Cons.IH [OF Cons.prems] by (simp add: e checkout_of_event checkin_of_event)
  qed
qed

lemma filter_checkout_module:
  "filter (checkout_of m) (filter (\<lambda>e. module_of e = m) es) = filter (checkout_of m) es"
  by (induction es) (auto simp: checkout_of_def)

lemma filter_checkin_module:
  "filter (checkin_of m) (filter (\<lambda>e. module_of e = m) es) = filter (checkin_of m) es"
  by (induction es) (auto simp: checkin_of_def)

lemma series_fold_first:
  assumes "filter (\<lambda>e. module_of e = m) es = e # rest"
  shows "series_fold m [] es =
         series_fold m [(date_of e, time_of e, init_use_upon_state (state_of e))] rest"
proof -
  obtain d t st m' u h where e: "e = (d, t, st, m', u, h)" by (cases e) auto
  have "e \<in> set (filter (\<lambda>e. module_of e = m) es)" using assms by simp
  then have m: "m' = m" by (simp add: e)
  have "series_fold m [] es = series_fold m [] (e # rest)"
    using series_fold_filter [of m "[]" es] assms by simp
  then show ?thesis by (simp add: e m)
qed

lemma init_use_value:
  "init_use_upon_state state = (if lower state = ''out'' then 1 else 0)"
  by (simp add: init_use_upon_state_def)

lemma series_fold_final_use:
  assumes "filter (\<lambda>e. module_of e = m) es = e # rest"
  shows "use_of (hd (series_fold m [] es)) =
         int (length (filter (checkout_of m) es)) - int (length (filter (checkin_of m) es))
         + (if lower (state_of e) = ''in'' then 1 else 0)"
proof -
  obtain d t st m' u h where e: "e = (d, t, st, m', u, h)" by (cases e) auto
  have "e \<in> set (filter (\<lambda>e. module_of e = m) es)" using assms by simp
  then have m: "m' = m" by (simp add: e)
  have a: "use_of (hd (series_fold m [] es)) =
        init_use_upon_state st + int (length (filter (checkout_of m) rest))
                               - int (length (filter (checkin_of m) rest))"
    unfolding series_fold_first [OF assms]
    using series_fold_use [of "[(date_of e, time_of e, init_use_upon_state (state_of e))]" m rest]
    by (simp add: e)
  have b: "filter (checkout_of m) es = filter (checkout_of m) (e # rest)"
    using filter_checkout_module [of m es] assms by simp
  have c: "filter (checkin_of m) es = filter (checkin_of m) (e # rest)"
    using filter_checkin_module [of m es] assms by simp
  show ?thesis
    unfolding a b c
    by (simp add: e m checkout_of_event checkin_of_event init_use_value)
qed

lemma series_fold_first_row:
  assumes "filter (\<lambda>e. module_of e = m) es = e # rest"
  shows "hd (rev (series_fold m [] es)) =
         (date_of e, time_of e, init_use_upon_state (state_of e))"
proof -
  from series_fold_suffix [of m "[(date_of e, time_of e, init_use_upon_state (state_of e))]" rest]
  obtain new where
    "series_fold m [(date_of e, time_of e, init_use_upon_state (state_of e))] rest =
     new @ [(date_of e, time_of e, init_use_upon_state (state_of e))]"
    by (elim exE) (rule that)
  then show ?thesis
    unfolding series_fold_first [OF assms] by simp
qed

lemma series_fold_nonempty:
  "m \<in> module_of ` set es \<Longrightarrow> series_fold m [] es \<noteq> []"
proof -
  assume "m \<in> module_of ` set es"
  then have "filter (\<lambda>e. module_of e = m) es \<noteq> []"
    by (auto simp: filter_empty_conv)
  then have "map (\<lambda>r. (fst r, fst (snd r))) (rev (series_fold m [] es)) \<noteq> []"
    unfolding series_fold_times by simp
  then show ?thesis by auto
qed

lemma map_of_dat_files:
  "map_of (map (\<lambda>m'. (m' @ ''.dat'', f m')) ml) (m @ ''.dat'') =
   (if m \<in> set ml then Some (f m) else None)"
  by (induction ml) auto

lemma output_gnuplot_char:
  "\<exists>ml. output_gnuplot xs =
          Inr (map (\<lambda>m. (m @ ''.dat'', rev (series_fold m [] (accepted {} xs)))) ml) \<and>
        set ml = module_of ` set (accepted {} xs)"
proof -
  have "set [] = dom (Map.empty :: string \<rightharpoonup> series)" by simp
  moreover have "distinct ([] :: string list)" by simp
  ultimately have "\<exists>stats ml. gnuplot_loop (Map.empty, [], {}) xs = Inr (stats, ml, dedup_after {} xs) \<and>
      set ml = dom stats \<and> distinct ml \<and>
      dom stats = dom (Map.empty :: string \<rightharpoonup> series) \<union> module_of ` set (accepted {} xs) \<and>
      (\<forall>m. series_entry stats m = series_fold m (series_entry Map.empty m) (accepted {} xs))"
    by (rule gnuplot_loop_char)
  then obtain stats ml where
    H: "gnuplot_loop (Map.empty, [], {}) xs = Inr (stats, ml, dedup_after {} xs) \<and>
      set ml = dom stats \<and> distinct ml \<and>
      dom stats = dom (Map.empty :: string \<rightharpoonup> series) \<union> module_of ` set (accepted {} xs) \<and>
      (\<forall>m. series_entry stats m = series_fold m (series_entry Map.empty m) (accepted {} xs))"
    by (elim exE) (rule that)
  from H have loop: "gnuplot_loop (Map.empty, [], {}) xs = Inr (stats, ml, dedup_after {} xs)"
    by (rule conjunct1)
  from H have inv: "set ml = dom stats"
    by (rule conjunct1 [OF conjunct2])
  from H have dist: "distinct ml"
    by (rule conjunct1 [OF conjunct2 [OF conjunct2]])
  from H have dm: "dom stats = dom (Map.empty :: string \<rightharpoonup> series) \<union> module_of ` set (accepted {} xs)"
    by (rule conjunct1 [OF conjunct2 [OF conjunct2 [OF conjunct2]]])
  from H have ent: "\<forall>m. series_entry stats m = series_fold m (series_entry Map.empty m) (accepted {} xs)"
    by (rule conjunct2 [OF conjunct2 [OF conjunct2 [OF conjunct2]]])
  have ent': "\<And>m. series_entry stats m = series_fold m [] (accepted {} xs)"
    using ent by (simp add: series_entry_def)
  have sub: "set ml \<subseteq> dom stats" using inv by simp
  have a: "output_gnuplot xs =
          Inr (map (\<lambda>m. (m @ ''.dat'', rev (series_fold m [] (accepted {} xs)))) ml)"
    using loop print_gnuplot_char [OF dist sub]
    by (simp add: output_gnuplot_def do_gnuplot_stats_def ent')
  have b: "set ml = module_of ` set (accepted {} xs)" using inv dm by simp
  show ?thesis
    by (intro exI conjI) (rule a, rule b)
qed

lemma dat_rows_output_gnuplot:
  "dat_rows (output_gnuplot xs) m =
   (if m \<in> module_of ` set (accepted {} xs)
    then Some (rev (series_fold m [] (accepted {} xs))) else None)"
proof -
  from output_gnuplot_char [of xs] obtain ml where
    H: "output_gnuplot xs =
          Inr (map (\<lambda>m. (m @ ''.dat'', rev (series_fold m [] (accepted {} xs)))) ml) \<and>
        set ml = module_of ` set (accepted {} xs)"
    by (elim exE) (rule that)
  show ?thesis
    unfolding dat_rows_def conjunct1 [OF H]
    using conjunct2 [OF H]
    by (simp add: map_of_dat_files [where f = "\<lambda>m. rev (series_fold m [] (accepted {} xs))"])
qed

lemma accepted_subset: "set (accepted D xs) \<subseteq> set xs"
proof (induction xs arbitrary: D)
  case Nil
  show ?case by simp
next
  case (Cons e es)
  obtain d t st m u h where e: "e = (d, t, st, m, u, h)" by (cases e) auto
  obtain b D' where dd: "deduplicate D st m u h = (b, D')" by (cases "deduplicate D st m u h")
  show ?case using Cons.IH [of D'] by (cases b) (auto simp: e dd)
qed

lemma accepted_sorted_wrt:
  "sorted_wrt P xs \<Longrightarrow> sorted_wrt P (accepted D xs)"
proof (induction xs arbitrary: D)
  case Nil
  show ?case by simp
next
  case (Cons e es)
  obtain d t st m u h where e: "e = (d, t, st, m, u, h)" by (cases e) auto
  obtain b D' where dd: "deduplicate D st m u h = (b, D')" by (cases "deduplicate D st m u h")
  have tl: "sorted_wrt P (accepted D' es)" using Cons.IH Cons.prems by simp
  have hd: "\<forall>y \<in> set (accepted D' es). P e y"
    using Cons.prems accepted_subset [of D' es] by auto
  show ?case using tl hd by (cases b) (simp_all add: e dd)
qed

lemma rows_sorted:
  assumes "sorted_wrt le (map (\<lambda>e. (date_of e, time_of e)) xs)"
  shows "sorted_wrt le (map (\<lambda>e. (date_of e, time_of e))
           (filter (\<lambda>e. module_of e = m) (accepted D xs)))"
proof -
  from assms have "sorted_wrt (\<lambda>x y. le (date_of x, time_of x) (date_of y, time_of y)) xs"
    by (simp add: sorted_wrt_map)
  then have "sorted_wrt (\<lambda>x y. le (date_of x, time_of x) (date_of y, time_of y)) (accepted D xs)"
    by (rule accepted_sorted_wrt)
  then have "sorted_wrt (\<lambda>x y. le (date_of x, time_of x) (date_of y, time_of y))
               (filter (\<lambda>e. module_of e = m) (accepted D xs))"
    by (rule sorted_wrt_filter)
  then show ?thesis by (simp add: sorted_wrt_map)
qed

lemma no_module_no_rows:
  "m \<notin> module_of ` set es \<Longrightarrow> filter (\<lambda>e. module_of e = m) es = []"
  by (auto simp: filter_empty_conv)

lemma rows_times:
  "map (\<lambda>r. (fst r, fst (snd r))) (rows_of (output_gnuplot xs) m) =
   map (\<lambda>e. (date_of e, time_of e)) (filter (\<lambda>e. module_of e = m) (accepted {} xs))"
  using series_fold_times [of m "[]" "accepted {} xs"]
  by (simp add: rows_of_def dat_rows_output_gnuplot no_module_no_rows)

lemma first_in_modules:
  "filter (\<lambda>e. module_of e = m) es = e # rest \<Longrightarrow> m \<in> module_of ` set es"
proof -
  assume a: "filter (\<lambda>e. module_of e = m) es = e # rest"
  then have "e \<in> set (filter (\<lambda>e. module_of e = m) es)" by simp
  then show ?thesis by auto
qed

text \<open>
  The rows of the data file of a module carry the dates and times of the accepted
  events of that module, in the order of the input list; hence they are ordered by any
  relation on (date, time) that orders the input list.  The concurrency of the last
  row is the number of accepted check-outs of the module minus the number of its
  accepted check-ins, plus one when the first accepted event of the module is a
  check-in (which starts the count at 0 rather than at -1).
\<close>

theorem series_follows_accepted_events:
  "map_option (map (\<lambda>r. (fst r, fst (snd r)))) (dat_rows (output_gnuplot result_list) m) =
     (if m \<in> module_of ` set (accepted {} result_list)
      then Some (map (\<lambda>e. (date_of e, time_of e))
                   (filter (\<lambda>e. module_of e = m) (accepted {} result_list)))
      else None) \<and>
   (sorted_wrt le (map (\<lambda>e. (date_of e, time_of e)) result_list) \<longrightarrow>
      sorted_wrt le (map (\<lambda>r. (fst r, fst (snd r))) (rows_of (output_gnuplot result_list) m))) \<and>
   (filter (\<lambda>e. module_of e = m) (accepted {} result_list) = e # rest \<longrightarrow>
      map_option (\<lambda>rows. use_of (last rows)) (dat_rows (output_gnuplot result_list) m) =
        Some (int (length (filter (checkout_of m) (accepted {} result_list)))
              - int (length (filter (checkin_of m) (accepted {} result_list)))
              + (if lower (state_of e) = ''in'' then 1 else 0)))"
proof (intro conjI impI)
  show "map_option (map (\<lambda>r. (fst r, fst (snd r)))) (dat_rows (output_gnuplot result_list) m) =
     (if m \<in> module_of ` set (accepted {} result_list)
      then Some (map (\<lambda>e. (date_of e, time_of e))
                   (filter (\<lambda>e. module_of e = m) (accepted {} result_list)))
      else None)"
    using series_fold_times [of m "[]" "accepted {} result_list"]
    by (simp add: dat_rows_output_gnuplot)
next
  assume "sorted_wrt le (map (\<lambda>e. (date_of e, time_of e)) result_list)"
  then show "sorted_wrt le (map (\<lambda>r. (fst r, fst (snd r))) (rows_of (output_gnuplot result_list) m))"
    unfolding rows_times by (rule rows_sorted)
next
  assume a: "filter (\<lambda>e. module_of e = m) (accepted {} result_list) = e # rest"
  have ne: "series_fold m [] (accepted {} result_list) \<noteq> []"
    using first_in_modules [OF a] by (rule series_fold_nonempty)
  show "map_option (\<lambda>rows. use_of (last rows)) (dat_rows (output_gnuplot result_list) m) =
        Some (int (length (filter (checkout_of m) (accepted {} result_list)))
              - int (length (filter (checkin_of m) (accepted {} result_list)))
              + (if lower (state_of e) = ''in'' then 1 else 0))"
    using first_in_modules [OF a] series_fold_final_use [OF a] ne
    by (simp add: dat_rows_output_gnuplot last_rev)
qed

text \<open>
  Claim C8.  For every state string \<open>init_use_upon_state\<close> returns 1 when the state
  lowercases to \<open>out\<close> and 0 otherwise, and the first row of the data file of a
  module carries exactly that value for the first accepted event of the module: 0 for
  a check-in, never a negative value.
\<close>

theorem first_event_initial_use:
  "init_use_upon_state state = (if lower state = ''out'' then 1 else 0) \<and>
   (filter (\<lambda>e. module_of e = m) (accepted {} result_list) = e # rest \<longrightarrow>
      map_option hd (dat_rows (output_gnuplot result_list) m) =
        Some (date_of e, time_of e, if lower (state_of e) = ''out'' then 1 else 0))"
proof (intro conjI impI)
  show "init_use_upon_state state = (if lower state = ''out'' then 1 else 0)"
    by (rule init_use_value)
next
  assume a: "filter (\<lambda>e. module_of e = m) (accepted {} result_list) = e # rest"
  show "map_option hd (dat_rows (output_gnuplot result_list) m) =
        Some (date_of e, time_of e, if lower (state_of e) = ''out'' then 1 else 0)"
    using first_in_modules [OF a] series_fold_first_row [OF a]
    by (simp add: dat_rows_output_gnuplot init_use_value)
qed

subsection \<open>The final concurrency and the keys of the deduplicator\<close>

lemma accepted_snoc:
  "accepted S (pre @ [(d, t, st, m, u, h)]) =
     accepted S pre @
       (if fst (deduplicate (dedup_after S pre) st m u h) then [] else [(d, t, st, m, u, h)])"
  by (simp add: accepted_append split: prod.splits bool.splits)

lemma open_key_has_checkout:
  "k \<in> dedup_after S pre \<Longrightarrow>
   k \<in> S \<or> (\<exists>x \<in> set (accepted S pre). key_of x = k \<and> lower (state_of x) = ''out'')"
proof (induction pre rule: rev_induct)
  case Nil
  then show ?case by simp
next
  case (snoc e pre)
  obtain d t st m u h where e: "e = (d, t, st, m, u, h)" by (cases e) auto
  consider (out) "lower st = ''out''" | (inn) "lower st = ''in''"
    | (other) "lower st \<noteq> ''out''" "lower st \<noteq> ''in''" by blast
  then show ?case
  proof cases
    case out
    show ?thesis
      using snoc.prems snoc.IH out
      unfolding e dedup_after_snoc accepted_snoc
      by (auto simp: deduplicate_out split: if_splits)
  next
    case inn
    show ?thesis
      using snoc.prems snoc.IH inn
      unfolding e dedup_after_snoc accepted_snoc
      by (auto simp: deduplicate_in split: if_splits)
  next
    case other
    show ?thesis
      using snoc.prems snoc.IH other
      unfolding e dedup_after_snoc accepted_snoc
      by (auto simp: deduplicate_other)
  qed
qed

lemma key_module:
  assumes "CHR '':'' \<notin> set m"
  shows "takeWhile (\<lambda>c. c \<noteq> CHR '':'') (dedup_key m u h) = m"
proof -
  have "takeWhile (\<lambda>c. c \<noteq> CHR '':'') (m @ CHR '':'' # (u @ ''@'' @ h)) =
        takeWhile (\<lambda>c. c \<noteq> CHR '':'') m"
    by (rule takeWhile_tail) simp
  also have "\<dots> = m" using assms by auto
  finally show ?thesis by (simp add: dedup_key_def)
qed

lemma key_module_unique:
  assumes "CHR '':'' \<notin> set m" and "CHR '':'' \<notin> set m'"
    and "dedup_key m u h = dedup_key m' u' h'"
  shows "m = m'"
  using key_module [OF assms(1), of u h] key_module [OF assms(2), of u' h'] assms(3)
  by simp

lemma first_event_not_checkin:
  assumes "\<forall>e \<in> set xs. CHR '':'' \<notin> set (module_of e)"
    and "filter (\<lambda>e. module_of e = m) (accepted {} xs) = e # rest"
  shows "lower (state_of e) \<noteq> ''in''"
  using assms
proof (induction xs arbitrary: e rest rule: rev_induct)
  case Nil
  then show ?case by simp
next
  case (snoc x pre)
  have pre: "\<forall>e \<in> set pre. CHR '':'' \<notin> set (module_of e)" using snoc.prems(1) by simp
  obtain d t st m' u h where x: "x = (d, t, st, m', u, h)" by (cases x) auto
  have acc: "accepted {} (pre @ [x]) =
        accepted {} pre @ (if fst (deduplicate (dedup_after {} pre) st m' u h) then [] else [x])"
    unfolding x by (rule accepted_snoc)
  show ?case
  proof (cases "filter (\<lambda>e. module_of e = m) (accepted {} pre)")
    case (Cons e' rest')
    then have "e' = e" using snoc.prems(2) unfolding acc by simp
    then show ?thesis using snoc.IH [OF pre Cons] by simp
  next
    case Nil
    then have none: "\<forall>y \<in> set (accepted {} pre). module_of y \<noteq> m"
      by (simp add: filter_empty_conv)
    from snoc.prems(2) Nil have ex: "e = x" and mm: "m' = m"
      and ok: "\<not> fst (deduplicate (dedup_after {} pre) st m' u h)"
      unfolding acc by (auto simp: x split: if_splits)
    show ?thesis
    proof
      assume "lower (state_of e) = ''in''"
      then have inn: "lower st = ''in''" by (simp add: ex x)
      have op: "dedup_key m' u h \<in> dedup_after {} pre"
        using ok by (simp add: deduplicate_in [OF inn] split: if_splits)
      from open_key_has_checkout [OF op] obtain y where
        y: "y \<in> set (accepted {} pre)" and ky: "key_of y = dedup_key m' u h"
        by auto
      obtain d2 t2 st2 m2 u2 h2 where yy: "y = (d2, t2, st2, m2, u2, h2)" by (cases y) auto
      have "y \<in> set pre" using y accepted_subset [of "{}" pre] by auto
      then have c1: "CHR '':'' \<notin> set m2" using pre by (auto simp: yy)
      have c2: "CHR '':'' \<notin> set m'" using snoc.prems(1) by (simp add: x)
      have "dedup_key m2 u2 h2 = dedup_key m' u h" using ky by (simp add: yy)
      from key_module_unique [OF c1 c2 this] have "module_of y = m" by (simp add: yy mm)
      with none y show False by simp
    qed
  qed
qed

text \<open>
  When no module name of the input holds a colon, two events with the same key are
  events of the same module, so a check-in is accepted only after an accepted
  check-out of its own module: the first accepted event of a module is never a
  check-in, and the concurrency of the last row of its data file is the number of its
  accepted check-outs minus the number of its accepted check-ins.
\<close>

lemma final_use_without_colon:
  assumes "\<forall>e \<in> set result_list. CHR '':'' \<notin> set (module_of e)"
    and "m \<in> module_of ` set (accepted {} result_list)"
  shows "map_option (\<lambda>rows. use_of (last rows)) (dat_rows (output_gnuplot result_list) m) =
         Some (int (length (filter (checkout_of m) (accepted {} result_list)))
               - int (length (filter (checkin_of m) (accepted {} result_list))))"
proof -
  from assms(2) have "filter (\<lambda>e. module_of e = m) (accepted {} result_list) \<noteq> []"
    by (auto simp: filter_empty_conv)
  then obtain e rest where
    a: "filter (\<lambda>e. module_of e = m) (accepted {} result_list) = e # rest"
    by (cases "filter (\<lambda>e. module_of e = m) (accepted {} result_list)") auto
  have ne: "series_fold m [] (accepted {} result_list) \<noteq> []"
    using assms(2) by (rule series_fold_nonempty)
  have no: "lower (state_of e) \<noteq> ''in''"
    using assms(1) a by (rule first_event_not_checkin)
  show ?thesis
    using assms(2) series_fold_final_use [OF a] ne no
    by (simp add: dat_rows_output_gnuplot last_rev)
qed

section \<open>Events that are neither check-outs nor check-ins\<close>

lemma module_fold_append:
  "module_fold m t (xs @ ys) = module_fold m (module_fold m t xs) ys"
proof (induction xs arbitrary: t)
  case Nil
  show ?case by simp
next
  case (Cons e es)
  obtain d ti st m' u h where e: "e = (d, ti, st, m', u, h)" by (cases e) auto
  show ?case by (simp add: e Cons.IH)
qed

lemma module_fold_no_module:
  "m \<notin> module_of ` set es \<Longrightarrow> module_fold m t es = t"
proof (induction es arbitrary: t)
  case Nil
  show ?case by simp
next
  case (Cons e es)
  obtain d ti st m' u h where e: "e = (d, ti, st, m', u, h)" by (cases e) auto
  show ?case using Cons.prems Cons.IH by (auto simp: e)
qed

lemma counters_in_do_some_stats:
  "nb_users_in (do_some_stats xs) m = nb_users_of (module_fold m init_stats (accepted {} xs))"
  "total_use_in (do_some_stats xs) m = total_use_of (module_fold m init_stats (accepted {} xs))"
  "nb_days_in (do_some_stats xs) m = nb_days_of (module_fold m init_stats (accepted {} xs))"
  by (simp_all add: nb_users_in_def total_use_in_def nb_days_in_def module_entry_do_some_stats
      module_fold_no_module init_stats_def)

lemma series_fold_no_module:
  "m \<notin> module_of ` set es \<Longrightarrow> series_fold m el es = el"
  using series_fold_filter [of m el es] by (simp add: no_module_no_rows)

lemma rows_of_output_gnuplot:
  "rows_of (output_gnuplot xs) m = rev (series_fold m [] (accepted {} xs))"
  by (simp add: rows_of_def dat_rows_output_gnuplot series_fold_no_module)

lemma next_use_other:
  "lower state \<noteq> ''out'' \<Longrightarrow> lower state \<noteq> ''in'' \<Longrightarrow>
   next_use el state = (if el = [] then 0 else use_of (hd el))"
  by (cases el) (simp_all add: init_use_value next_use_nonempty)

text \<open>
  Claim C10.  An event whose state lowercases to neither \<open>out\<close> nor \<open>in\<close> is never
  dropped by the deduplicator and leaves its set as it is.  After any earlier events
  \<open>pre\<close>, the statistics fold holds the same \<open>nb_users\<close>, \<open>total_use\<close> and
  \<open>nb_days\<close> for every module as before the event (0 for a module that had no tuple),
  while the time series of the event's module gets one more row, with the concurrency
  of the row before it (0 when there was none).
\<close>

theorem other_state_events:
  assumes "lower state \<noteq> ''out''" and "lower state \<noteq> ''in''"
  shows "deduplicate S state m u h = (False, S) \<and>
         accepted S (pre @ [(d, t, state, m, u, h)]) = accepted S pre @ [(d, t, state, m, u, h)] \<and>
         dedup_after S (pre @ [(d, t, state, m, u, h)]) = dedup_after S pre \<and>
         nb_users_in (do_some_stats (pre @ [(d, t, state, m, u, h)])) m' =
           nb_users_in (do_some_stats pre) m' \<and>
         total_use_in (do_some_stats (pre @ [(d, t, state, m, u, h)])) m' =
           total_use_in (do_some_stats pre) m' \<and>
         nb_days_in (do_some_stats (pre @ [(d, t, state, m, u, h)])) m' =
           nb_days_in (do_some_stats pre) m' \<and>
         rows_of (output_gnuplot (pre @ [(d, t, state, m, u, h)])) m =
           rows_of (output_gnuplot pre) m @
           [(d, t, if rows_of (output_gnuplot pre) m = [] then 0
                   else use_of (last (rows_of (output_gnuplot pre) m)))]"
proof (intro conjI)
  show dd: "deduplicate S state m u h = (False, S)"
    using assms by (rule deduplicate_other)
  show acc: "accepted S (pre @ [(d, t, state, m, u, h)]) = accepted S pre @ [(d, t, state, m, u, h)]"
    using assms by (simp add: accepted_append deduplicate_other)
  show "dedup_after S (pre @ [(d, t, state, m, u, h)]) = dedup_after S pre"
    using assms by (simp add: dedup_after_append deduplicate_other)
  have acc0: "accepted {} (pre @ [(d, t, state, m, u, h)]) = accepted {} pre @ [(d, t, state, m, u, h)]"
    using assms by (simp add: accepted_append deduplicate_other)
  show "nb_users_in (do_some_stats (pre @ [(d, t, state, m, u, h)])) m' =
           nb_users_in (do_some_stats pre) m'"
    using assms by (simp add: counters_in_do_some_stats acc0 module_fold_append nb_users_update)
  show "total_use_in (do_some_stats (pre @ [(d, t, state, m, u, h)])) m' =
           total_use_in (do_some_stats pre) m'"
    using assms by (simp add: counters_in_do_some_stats acc0 module_fold_append total_use_update)
  show "nb_days_in (do_some_stats (pre @ [(d, t, state, m, u, h)])) m' =
           nb_days_in (do_some_stats pre) m'"
    using assms by (simp add: counters_in_do_some_stats acc0 module_fold_append nb_days_update)
  show "rows_of (output_gnuplot (pre @ [(d, t, state, m, u, h)])) m =
           rows_of (output_gnuplot pre) m @
           [(d, t, if rows_of (output_gnuplot pre) m = [] then 0
                   else use_of (last (rows_of (output_gnuplot pre) m)))]"
    using assms
    by (simp add: rows_of_output_gnuplot acc0 series_fold_append next_use_other last_rev)
qed

section \<open>Properties of reading the log files\<close>

lemma read_line_timestamp:
  assumes "match_event line = None" and "match_timestamp line = Some (g1, g2, g3)"
  shows "read_line (result_list, nb_days, date_matched, date, old_date) line =
         (result_list,
          (if g3 @ ''/'' @ g1 @ ''/'' @ g2 \<noteq> old_date then nb_days + 1 else nb_days),
          (date_matched \<or> match_start_date line \<noteq> None),
          g3 @ ''/'' @ g1 @ ''/'' @ g2,
          g3 @ ''/'' @ g1 @ ''/'' @ g2)"
  using assms by (auto simp: Let_def split: option.splits prod.splits)

lemma read_line_event:
  assumes "match_event line = Some (time, state, module, user, machine)"
  shows "read_line (result_list, nb_days, date_matched, date, old_date) line =
         (result_list @
            [(if date_matched then date
              else (case match_start_date line of
                      Some (g1, g2, g3) \<Rightarrow> g3 @ ''/'' @ g1 @ ''/'' @ g2
                    | None \<Rightarrow> date),
              time, state, module, user, machine)],
          nb_days, (date_matched \<or> match_start_date line \<noteq> None),
          (if date_matched then date
           else (case match_start_date line of
                   Some (g1, g2, g3) \<Rightarrow> g3 @ ''/'' @ g1 @ ''/'' @ g2
                 | None \<Rightarrow> date)),
          old_date)"
  using assms by (auto simp: Let_def split: option.splits prod.splits)

lemma read_line_other:
  assumes "match_event line = None" and "match_timestamp line = None"
  shows "read_line (result_list, nb_days, date_matched, date, old_date) line =
         (result_list, nb_days, (date_matched \<or> match_start_date line \<noteq> None),
          (if date_matched then date
           else (case match_start_date line of
                   Some (g1, g2, g3) \<Rightarrow> g3 @ ''/'' @ g1 @ ''/'' @ g2
                 | None \<Rightarrow> date)),
          old_date)"
  using assms by (auto simp: Let_def split: option.splits prod.splits)

declare read_line.simps [simp del]

lemma read_line_cases:
  obtains (event) time state module user machine
      where "match_event line = Some (time, state, module, user, machine)"
    | (timestamp) g1 g2 g3
      where "match_event line = None" and "match_timestamp line = Some (g1, g2, g3)"
    | (other) "match_event line = None" and "match_timestamp line = None"
proof (cases "match_event line")
  case None
  show ?thesis
  proof (cases "match_timestamp line")
    case None
    with \<open>match_event line = None\<close> show ?thesis by (rule other)
  next
    case (Some g)
    obtain g1 g2 g3 where "g = (g1, g2, g3)" by (cases g) auto
    with Some have "match_timestamp line = Some (g1, g2, g3)" by simp
    with \<open>match_event line = None\<close> show ?thesis by (rule timestamp)
  qed
next
  case (Some g)
  obtain time state module user machine where "g = (time, state, module, user, machine)"
    by (cases g) auto
  with Some have "match_event line = Some (time, state, module, user, machine)" by simp
  then show ?thesis by (rule event)
qed

lemma timestamp_date_nonempty: "timestamp_date line = Some d \<Longrightarrow> d \<noteq> []"
  by (auto simp: timestamp_date_def split: option.splits)

lemma read_line_days:
  "fst (snd (read_line (result_list, nb_days, date_matched, date, old_date) line)) =
     (case timestamp_date line of
        None \<Rightarrow> nb_days
      | Some d \<Rightarrow> if d \<noteq> old_date then nb_days + 1 else nb_days) \<and>
   snd (snd (snd (snd (read_line (result_list, nb_days, date_matched, date, old_date) line)))) =
     (case timestamp_date line of None \<Rightarrow> old_date | Some d \<Rightarrow> d)"
proof (cases line rule: read_line_cases)
  case (event time state module user machine)
  show ?thesis unfolding read_line_event [OF event] by (simp add: timestamp_date_def event)
next
  case (timestamp g1 g2 g3)
  show ?thesis unfolding read_line_timestamp [OF timestamp]
    by (simp add: timestamp_date_def timestamp)
next
  case other
  show ?thesis unfolding read_line_other [OF other] by (simp add: timestamp_date_def other)
qed

lemma read_lines_days:
  "fst (snd (read_lines (result_list, nb_days, date_matched, date, old_date) inode)) =
     nb_days + int (length (remdups_adj (old_date # timestamp_dates inode))) - 1"
proof (induction inode arbitrary: result_list nb_days date_matched date old_date)
  case Nil
  show ?case by (simp add: timestamp_dates_def)
next
  case (Cons line inode)
  obtain rl nd dm d od where
    r: "read_line (result_list, nb_days, date_matched, date, old_date) line = (rl, nd, dm, d, od)"
    by (cases "read_line (result_list, nb_days, date_matched, date, old_date) line") auto
  have nd: "nd = (case timestamp_date line of
        None \<Rightarrow> nb_days
      | Some d \<Rightarrow> if d \<noteq> old_date then nb_days + 1 else nb_days)"
    using read_line_days [of result_list nb_days date_matched date old_date line] r by simp
  have od: "od = (case timestamp_date line of None \<Rightarrow> old_date | Some d \<Rightarrow> d)"
    using read_line_days [of result_list nb_days date_matched date old_date line] r by simp
  have "fst (snd (read_lines (result_list, nb_days, date_matched, date, old_date) (line # inode))) =
        nd + int (length (remdups_adj (od # timestamp_dates inode))) - 1"
    using Cons.IH [of rl nd dm d od] by (simp add: r)
  also have "\<dots> = nb_days + int (length (remdups_adj (old_date # timestamp_dates (line # inode)))) - 1"
    unfolding nd od
    by (cases "timestamp_date line") (auto simp: timestamp_dates_def)
  finally show ?case .
qed

lemma remdups_adj_empty_head:
  "\<forall>d \<in> set ds. d \<noteq> [] \<Longrightarrow>
   length (remdups_adj ([] # ds)) = Suc (length (remdups_adj ds))"
  by (cases ds) auto

lemma timestamp_dates_nonempty: "\<forall>d \<in> set (timestamp_dates inode). d \<noteq> []"
  by (auto simp: timestamp_dates_def List.map_filter_def dest: timestamp_date_nonempty)

lemma read_one_file_days:
  "fst (snd (read_one_file (result_list, nb_days, date_matched) inode)) =
     nb_days + int (length (remdups_adj (timestamp_dates inode)))"
  unfolding read_one_file_def enter_file_def
  using read_lines_days [of result_list nb_days date_matched "''??/??/????''" "[]" inode]
    remdups_adj_empty_head [OF timestamp_dates_nonempty, of inode]
  by simp

lemma files_loop_days:
  "fst (snd (files_loop (result_list, nb_days, date_matched) files)) =
     nb_days + (\<Sum>inode\<leftarrow>files. int (length (remdups_adj (timestamp_dates inode))))"
proof (induction files arbitrary: result_list nb_days date_matched)
  case Nil
  show ?case by simp
next
  case (Cons f files)
  obtain rl nd dm d od where
    r: "read_one_file (result_list, nb_days, date_matched) f = (rl, nd, dm, d, od)"
    by (cases "read_one_file (result_list, nb_days, date_matched) f") auto
  have nd: "nd = nb_days + int (length (remdups_adj (timestamp_dates f)))"
    using read_one_file_days [of result_list nb_days date_matched f] r by simp
  show ?case using Cons.IH [of rl nd dm] by (simp add: r nd)
qed

lemma read_files_days:
  "fst (read_files files) =
     (\<Sum>inode\<leftarrow>files. int (length (remdups_adj (timestamp_dates inode))))"
proof -
  obtain rl nd dm where r: "files_loop ([], 0, False) files = (rl, nd, dm)"
    by (cases "files_loop ([], 0, False) files") auto
  show ?thesis
    using files_loop_days [of "[]" 0 False files] by (simp add: read_files_def r)
qed

text \<open>
  Claim C5, amended.  On a timestamp line (one that the event pattern does not match)
  \<open>read_files\<close> always sets the current date to the date of the timestamp.  It adds
  one to \<open>nb_days\<close> and records the date in \<open>old_date\<close> exactly when the date
  differs from \<open>old_date\<close>, the date of the previous timestamp line of the same
  file; \<open>old_date\<close> is empty when a file is entered, so the first timestamp line of
  every file counts.  The current date, which a line with the starting date may have
  set, plays no part in the test.  Hence \<open>nb_days\<close> is, summed over the files, the
  number of timestamp lines whose date differs from that of the timestamp line before
  them in the file.
\<close>

theorem timestamp_line_counts_days:
  "(match_event line = None \<and> match_timestamp line = Some (g1, g2, g3) \<longrightarrow>
      read_line (result_list, nb_days, date_matched, date, old_date) line =
        (result_list,
         (if g3 @ ''/'' @ g1 @ ''/'' @ g2 \<noteq> old_date then nb_days + 1 else nb_days),
         (date_matched \<or> match_start_date line \<noteq> None),
         g3 @ ''/'' @ g1 @ ''/'' @ g2,
         g3 @ ''/'' @ g1 @ ''/'' @ g2) \<and>
      read_line (enter_file (result_list, nb_days, date_matched)) line =
        (result_list, nb_days + 1, (date_matched \<or> match_start_date line \<noteq> None),
         g3 @ ''/'' @ g1 @ ''/'' @ g2,
         g3 @ ''/'' @ g1 @ ''/'' @ g2)) \<and>
   fst (read_files files) =
     (\<Sum>inode\<leftarrow>files. int (length (remdups_adj (timestamp_dates inode))))"
proof (intro conjI impI)
  assume a: "match_event line = None \<and> match_timestamp line = Some (g1, g2, g3)"
  show "read_line (result_list, nb_days, date_matched, date, old_date) line =
        (result_list,
         (if g3 @ ''/'' @ g1 @ ''/'' @ g2 \<noteq> old_date then nb_days + 1 else nb_days),
         (date_matched \<or> match_start_date line \<noteq> None),
         g3 @ ''/'' @ g1 @ ''/'' @ g2,
         g3 @ ''/'' @ g1 @ ''/'' @ g2)"
    using conjunct1 [OF a] conjunct2 [OF a] by (rule read_line_timestamp)
  show "read_line (enter_file (result_list, nb_days, date_matched)) line =
        (result_list, nb_days + 1, (date_matched \<or> match_start_date line \<noteq> None),
         g3 @ ''/'' @ g1 @ ''/'' @ g2,
         g3 @ ''/'' @ g1 @ ''/'' @ g2)"
    unfolding enter_file_def
    using read_line_timestamp [OF conjunct1 [OF a] conjunct2 [OF a],
        of result_list nb_days date_matched "''??/??/????''" "[]"]
    by simp
next
  show "fst (read_files files) =
     (\<Sum>inode\<leftarrow>files. int (length (remdups_adj (timestamp_dates inode))))"
    by (rule read_files_days)
qed















section \<open>Properties of the main program\<close>

lemma print_stats_prints:
  "set name_list \<subseteq> dom stats \<Longrightarrow> \<exists>printed. print_stats nb_days stats name_list = Inr printed"
proof (induction name_list)
  case Nil
  show ?case by simp
next
  case (Cons name name_list)
  from Cons.prems obtain t where t: "stats name = Some t" by auto
  obtain a b c d e f g where tt: "t = (a, b, c, d, e, f, g)" by (cases t) auto
  from Cons.prems have "set name_list \<subseteq> dom stats" by simp
  from Cons.IH [OF this] obtain printed where
    p: "print_stats nb_days stats name_list = Inr printed"
    by (elim exE) (rule that)
  show ?case by (simp add: t tt p Let_def)
qed

lemma output_stats_prints:
  "\<exists>printed. output_stats nb_days result_list = Inr printed"
proof -
  have "set [] = dom (Map.empty :: string \<rightharpoonup> module_stats)" by simp
  from stats_loop_char [OF this, of "{}" result_list]
  obtain stats ml where
    H: "stats_loop (Map.empty, [], {}) result_list = Inr (stats, ml, dedup_after {} result_list) \<and>
        set ml = dom stats \<and>
        dom stats = dom (Map.empty :: string \<rightharpoonup> module_stats) \<union>
          module_of ` set (accepted {} result_list) \<and>
        (\<forall>m. entry stats m = module_fold m (entry Map.empty m) (accepted {} result_list))"
    by (elim exE) (rule that)
  have a: "do_some_stats result_list = Inr (stats, ml)"
    using conjunct1 [OF H] by (simp add: do_some_stats_def)
  have "set ml \<subseteq> dom stats" using conjunct1 [OF conjunct2 [OF H]] by simp
  from print_stats_prints [OF this, of nb_days] obtain printed where
    "print_stats nb_days stats ml = Inr printed"
    by (elim exE) (rule that)
  then have "output_stats nb_days result_list = Inr printed"
    by (simp add: output_stats_def a)
  then show ?thesis by (rule exI)
qed

lemma output_gnuplot_writes:
  "\<exists>dat. output_gnuplot result_list = Inr dat"
proof -
  from output_gnuplot_char [of result_list] obtain ml where
    H: "output_gnuplot result_list =
          Inr (map (\<lambda>m. (m @ ''.dat'', rev (series_fold m [] (accepted {} result_list)))) ml) \<and>
        set ml = module_of ` set (accepted {} result_list)"
    by (elim exE) (rule that)
  from conjunct1 [OF H] show ?thesis by (rule exI)
qed

lemma read_files_days_nonneg: "0 \<le> fst (read_files files)"
  unfolding read_files_days by (rule sum_list_nonneg) auto

text \<open>
  Claim C9.  \<open>main\<close> ends without output and without error when \<open>read_files\<close>
  returns at most one event, whatever the mode, and in the \<open>gnuplot\<close> mode also when
  \<open>nb_days\<close> is 0 (it is never negative).  Apart from a run with neither mode chosen,
  these are the only silent runs: with two events or more, the \<open>stat\<close> mode always
  prints its statistics, and the \<open>gnuplot\<close> mode always writes its report when
  \<open>nb_days\<close> is not 0.
\<close>

theorem main_skips_without_output:
  "(length (snd (read_files files)) \<le> 1 \<longrightarrow> main out report files = Inr NoOutput) \<and>
   (out = ''gnuplot'' \<and> fst (read_files files) = 0 \<longrightarrow>
      main out report files = Inr NoOutput) \<and>
   (out \<noteq> ''stat'' \<and> out \<noteq> ''gnuplot'' \<longrightarrow> main out report files = Inr NoOutput) \<and>
   (1 < length (snd (read_files files)) \<and> out = ''stat'' \<longrightarrow>
      (\<exists>printed. main out report files = Inr (Printed printed))) \<and>
   (1 < length (snd (read_files files)) \<and> out = ''gnuplot'' \<and> fst (read_files files) \<noteq> 0 \<longrightarrow>
      (\<exists>dat. main out report files = Inr (Report (report @ ''_report'') dat))) \<and>
   0 \<le> fst (read_files files)"
proof -
  obtain nb_days result_list where r: "read_files files = (nb_days, result_list)"
    by (cases "read_files files") auto
  have nn: "0 \<le> nb_days" using read_files_days_nonneg [of files] by (simp add: r)
  obtain printed where p: "output_stats nb_days result_list = Inr printed"
    using output_stats_prints [of nb_days result_list] by (elim exE) (rule that)
  obtain dat where g: "output_gnuplot result_list = Inr dat"
    using output_gnuplot_writes [of result_list] by (elim exE) (rule that)
  show ?thesis
    using nn by (simp add: main_def r p g)
qed

section \<open>Worked examples\<close>

lemmas eval_defs =
  do_some_stats_def stats_body.simps deduplicate_def get_stats_from_module_def
  count_users_upon_state_def get_min_max_users_def lower_def lower_char_def
  output_gnuplot_def do_gnuplot_stats_def gnuplot_body.simps init_use_upon_state_def
  update_use_value_upon_state_def dat_rows_def rows_of_def module_entry_def
  nb_users_in_def total_use_in_def nb_days_in_def Let_def

lemmas read_defs =
  read_files_def read_one_file_def enter_file_def read_line.simps
  match_start_date_def match_event_def match_timestamp_def Let_def

theorem other_state_events_witness:
  "lower ''DENIED'' \<noteq> ''out'' \<and> lower ''DENIED'' \<noteq> ''in'' \<and>
   deduplicate {''A:u@h''} ''DENIED'' ''A'' ''v'' ''h'' = (False, {''A:u@h''}) \<and>
   nb_users_in (do_some_stats
     [(''2012/7/30'', ''8:00:00'', ''OUT'', ''A'', ''u'', ''h''),
      (''2012/7/30'', ''8:05:00'', ''DENIED'', ''A'', ''v'', ''h'')]) ''A'' = 1 \<and>
   rows_of (output_gnuplot
     [(''2012/7/30'', ''8:00:00'', ''OUT'', ''A'', ''u'', ''h''),
      (''2012/7/30'', ''8:05:00'', ''DENIED'', ''A'', ''v'', ''h'')]) ''A'' =
     [(''2012/7/30'', ''8:00:00'', 1), (''2012/7/30'', ''8:05:00'', 1)]"
proof -
  have h1: "lower ''DENIED'' \<noteq> ''out''" by (simp add: lower_def lower_char_def)
  have h2: "lower ''DENIED'' \<noteq> ''in''" by (simp add: lower_def lower_char_def)
  show ?thesis
    using h1 h2
      other_state_events [OF h1 h2, of "{''A:u@h''}" "''A''" "''v''" "''h''"
        "[(''2012/7/30'', ''8:00:00'', ''OUT'', ''A'', ''u'', ''h'')]"
        "''2012/7/30''" "''8:05:00''" "''A''"]
    by (simp add: eval_defs)
qed

theorem series_follows_accepted_events_witness:
  "sorted_wrt (\<lambda>a b. fst a = fst b) (map (\<lambda>e. (date_of e, time_of e))
     [(''2012/7/30'', ''8:00:00'', ''OUT'', ''A'', ''u'', ''h''),
      (''2012/7/30'', ''9:00:00'', ''IN'', ''A'', ''u'', ''h'')]) \<and>
   filter (\<lambda>e. module_of e = ''A'') (accepted {}
     [(''2012/7/30'', ''8:00:00'', ''OUT'', ''A'', ''u'', ''h''),
      (''2012/7/30'', ''9:00:00'', ''IN'', ''A'', ''u'', ''h'')]) =
     (''2012/7/30'', ''8:00:00'', ''OUT'', ''A'', ''u'', ''h'') #
     [(''2012/7/30'', ''9:00:00'', ''IN'', ''A'', ''u'', ''h'')] \<and>
   dat_rows (output_gnuplot
     [(''2012/7/30'', ''8:00:00'', ''OUT'', ''A'', ''u'', ''h''),
      (''2012/7/30'', ''9:00:00'', ''IN'', ''A'', ''u'', ''h'')]) ''A'' =
     Some [(''2012/7/30'', ''8:00:00'', 1), (''2012/7/30'', ''9:00:00'', 0)]"
  using series_follows_accepted_events [where m = "''A''" and le = "\<lambda>a b. fst a = fst b"
      and e = "(''2012/7/30'', ''8:00:00'', ''OUT'', ''A'', ''u'', ''h'')"
      and rest = "[(''2012/7/30'', ''9:00:00'', ''IN'', ''A'', ''u'', ''h'')]"
      and result_list = "[(''2012/7/30'', ''8:00:00'', ''OUT'', ''A'', ''u'', ''h''),
      (''2012/7/30'', ''9:00:00'', ''IN'', ''A'', ''u'', ''h'')]"]
  by (simp add: eval_defs)

theorem timestamp_line_counts_days_witness:
  "match_event ''20:52:29 (lmgrd) TIMESTAMP 7/30/2012'' = None \<and>
   match_timestamp ''20:52:29 (lmgrd) TIMESTAMP 7/30/2012'' = Some (''7'', ''30'', ''2012'') \<and>
   read_line ([], 1, True, ''2012/7/30'', ''2012/7/30'') ''20:52:29 (lmgrd) TIMESTAMP 7/30/2012'' =
     ([], 1, True, ''2012/7/30'', ''2012/7/30'') \<and>
   read_line ([], 1, True, ''2012/7/29'', ''2012/7/29'') ''20:52:29 (lmgrd) TIMESTAMP 7/30/2012'' =
     ([], 2, True, ''2012/7/30'', ''2012/7/30'') \<and>
   fst (read_files [[''8:21:20 (lmgrd) started (7/30/2012)'',
                     ''20:52:29 (lmgrd) TIMESTAMP 7/30/2012'',
                     ''21:52:29 (lmgrd) TIMESTAMP 7/30/2012'',
                     ''3:52:29 (lmgrd) TIMESTAMP 7/31/2012''],
                    [''9:52:29 (lmgrd) TIMESTAMP 7/31/2012'']]) = 3"
proof -
  have h1: "match_event ''20:52:29 (lmgrd) TIMESTAMP 7/30/2012'' = None"
    by (simp add: match_event_def)
  have h2: "match_timestamp ''20:52:29 (lmgrd) TIMESTAMP 7/30/2012'' = Some (''7'', ''30'', ''2012'')"
    by (simp add: match_timestamp_def)
  have h: "match_event ''20:52:29 (lmgrd) TIMESTAMP 7/30/2012'' = None \<and>
     match_timestamp ''20:52:29 (lmgrd) TIMESTAMP 7/30/2012'' = Some (''7'', ''30'', ''2012'')"
    using h1 h2 by (rule conjI)
  have d: "timestamp_dates [''8:21:20 (lmgrd) started (7/30/2012)'',
                     ''20:52:29 (lmgrd) TIMESTAMP 7/30/2012'',
                     ''21:52:29 (lmgrd) TIMESTAMP 7/30/2012'',
                     ''3:52:29 (lmgrd) TIMESTAMP 7/31/2012''] =
           [''2012/7/30'', ''2012/7/30'', ''2012/7/31'']"
    by (simp add: timestamp_dates_def timestamp_date_def match_event_def match_timestamp_def)
  have d': "timestamp_dates [''9:52:29 (lmgrd) TIMESTAMP 7/31/2012''] = [''2012/7/31'']"
    by (simp add: timestamp_dates_def timestamp_date_def match_event_def match_timestamp_def)
  show ?thesis
    using h1 h2
      timestamp_line_counts_days [where line = "''20:52:29 (lmgrd) TIMESTAMP 7/30/2012''"
        and ?g1.0 = "''7''" and ?g2.0 = "''30''" and ?g3.0 = "''2012''"
        and result_list = "[]" and nb_days = 1 and date_matched = True
        and date = "''2012/7/30''" and old_date = "''2012/7/30''"
        and files = "[[''8:21:20 (lmgrd) started (7/30/2012)'',
                     ''20:52:29 (lmgrd) TIMESTAMP 7/30/2012'',
                     ''21:52:29 (lmgrd) TIMESTAMP 7/30/2012'',
                     ''3:52:29 (lmgrd) TIMESTAMP 7/31/2012''],
                    [''9:52:29 (lmgrd) TIMESTAMP 7/31/2012'']]"]
      timestamp_line_counts_days [where line = "''20:52:29 (lmgrd) TIMESTAMP 7/30/2012''"
        and ?g1.0 = "''7''" and ?g2.0 = "''30''" and ?g3.0 = "''2012''"
        and result_list = "[]" and nb_days = 1 and date_matched = True
        and date = "''2012/7/29''" and old_date = "''2012/7/29''" and files = "[]"]
    by (simp add: d d')
qed

text \<open>
  Claim C5 as stated fails: after the line with the starting date 7/30/2012 the current
  date is \<open>2012/7/30\<close>, and a timestamp line with the same date still adds one to
  \<open>nb_days\<close>, because \<open>old_date\<close> is empty.
\<close>

theorem timestamp_equal_to_tracked_date_counterexample:
  "read_one_file ([], 0, False) [''8:21:20 (lmgrd) started (7/30/2012)''] =
     ([], 0, True, ''2012/7/30'', []) \<and>
   match_event ''20:52:29 (lmgrd) TIMESTAMP 7/30/2012'' = None \<and>
   match_timestamp ''20:52:29 (lmgrd) TIMESTAMP 7/30/2012'' = Some (''7'', ''30'', ''2012'') \<and>
   read_line ([], 0, True, ''2012/7/30'', []) ''20:52:29 (lmgrd) TIMESTAMP 7/30/2012'' =
     ([], 1, True, ''2012/7/30'', ''2012/7/30'') \<and>
   read_files [[''8:21:20 (lmgrd) started (7/30/2012)'',
                ''20:52:29 (lmgrd) TIMESTAMP 7/30/2012'']] = (1, [])"
  by (simp add: read_defs)



theorem main_skips_without_output_witness:
  "length (snd (read_files [[''11:50:22 (orglab) OUT: \"Origin7\" user@HOST'']])) \<le> 1 \<and>
   main ''stat'' ''Licenses'' [[''11:50:22 (orglab) OUT: \"Origin7\" user@HOST'']] = Inr NoOutput \<and>
   main ''gnuplot'' ''Licenses'' [[''20:52:29 (lmgrd) TIMESTAMP 7/30/2012'',
                                   ''11:50:22 (orglab) OUT: \"Origin7\" user@HOST'']] = Inr NoOutput \<and>
   fst (read_files [[''11:50:22 (orglab) OUT: \"Origin7\" user@HOST'',
                     ''11:55:00 (orglab) IN: \"Origin7\" user@HOST'']]) = 0 \<and>
   1 < length (snd (read_files [[''11:50:22 (orglab) OUT: \"Origin7\" user@HOST'',
                     ''11:55:00 (orglab) IN: \"Origin7\" user@HOST'']])) \<and>
   main ''gnuplot'' ''Licenses'' [[''11:50:22 (orglab) OUT: \"Origin7\" user@HOST'',
                     ''11:55:00 (orglab) IN: \"Origin7\" user@HOST'']] = Inr NoOutput \<and>
   ''None'' \<noteq> ''stat'' \<and> ''None'' \<noteq> ''gnuplot'' \<and>
   main ''None'' ''Licenses'' [[''20:52:29 (lmgrd) TIMESTAMP 7/30/2012'',
                     ''11:50:22 (orglab) OUT: \"Origin7\" user@HOST'',
                     ''11:55:00 (orglab) IN: \"Origin7\" user@HOST'']] = Inr NoOutput \<and>
   main ''stat'' ''Licenses'' [[''11:50:22 (orglab) OUT: \"Origin7\" user@HOST'',
                     ''11:55:00 (orglab) IN: \"Origin7\" user@HOST'']] =
     Inr (Printed [(''Origin7'', 1, ''??/??/????'', 0, 1, 1, 0, Average 1)]) \<and>
   fst (read_files [[''20:52:29 (lmgrd) TIMESTAMP 7/30/2012'',
                     ''11:50:22 (orglab) OUT: \"Origin7\" user@HOST'',
                     ''11:55:00 (orglab) IN: \"Origin7\" user@HOST'']]) \<noteq> 0 \<and>
   main ''gnuplot'' ''Licenses'' [[''20:52:29 (lmgrd) TIMESTAMP 7/30/2012'',
                     ''11:50:22 (orglab) OUT: \"Origin7\" user@HOST'',
                     ''11:55:00 (orglab) IN: \"Origin7\" user@HOST'']] =
     Inr (Report ''Licenses_report''
            [(''Origin7.dat'', [(''2012/7/30'', ''11:50:22'', 1), (''2012/7/30'', ''11:55:00'', 0)])])"
proof -
  have r1: "read_files [[''11:50:22 (orglab) OUT: \"Origin7\" user@HOST'']] =
        (0, [(''??/??/????'', ''11:50:22'', ''OUT'', ''Origin7'', ''user'', ''HOST'')])"
    by (simp add: read_defs)
  have r2: "read_files [[''11:50:22 (orglab) OUT: \"Origin7\" user@HOST'',
                     ''11:55:00 (orglab) IN: \"Origin7\" user@HOST'']] =
        (0, [(''??/??/????'', ''11:50:22'', ''OUT'', ''Origin7'', ''user'', ''HOST''),
             (''??/??/????'', ''11:55:00'', ''IN'', ''Origin7'', ''user'', ''HOST'')])"
    by (simp add: read_defs)
  have r3: "read_files [[''20:52:29 (lmgrd) TIMESTAMP 7/30/2012'',
                     ''11:50:22 (orglab) OUT: \"Origin7\" user@HOST'',
                     ''11:55:00 (orglab) IN: \"Origin7\" user@HOST'']] =
        (1, [(''2012/7/30'', ''11:50:22'', ''OUT'', ''Origin7'', ''user'', ''HOST''),
             (''2012/7/30'', ''11:55:00'', ''IN'', ''Origin7'', ''user'', ''HOST'')])"
    by (simp add: read_defs)
  have r4: "read_files [[''20:52:29 (lmgrd) TIMESTAMP 7/30/2012'',
                     ''11:50:22 (orglab) OUT: \"Origin7\" user@HOST'']] =
        (1, [(''2012/7/30'', ''11:50:22'', ''OUT'', ''Origin7'', ''user'', ''HOST'')])"
    by (simp add: read_defs)
  have s: "output_stats 0
            [(''??/??/????'', ''11:50:22'', ''OUT'', ''Origin7'', ''user'', ''HOST''),
             (''??/??/????'', ''11:55:00'', ''IN'', ''Origin7'', ''user'', ''HOST'')] =
        Inr [(''Origin7'', 1, ''??/??/????'', 0, 1, 1, 0, Average 1)]"
    by (simp add: output_stats_def eval_defs truncated_average_def)
  have g: "output_gnuplot
            [(''2012/7/30'', ''11:50:22'', ''OUT'', ''Origin7'', ''user'', ''HOST''),
             (''2012/7/30'', ''11:55:00'', ''IN'', ''Origin7'', ''user'', ''HOST'')] =
        Inr [(''Origin7.dat'', [(''2012/7/30'', ''11:50:22'', 1), (''2012/7/30'', ''11:55:00'', 0)])]"
    by (simp add: eval_defs)
  show ?thesis
    using main_skips_without_output
        [of "[[''11:50:22 (orglab) OUT: \"Origin7\" user@HOST'']]" "''stat''" "''Licenses''"]
      main_skips_without_output
        [of "[[''11:50:22 (orglab) OUT: \"Origin7\" user@HOST'',
               ''11:55:00 (orglab) IN: \"Origin7\" user@HOST'']]" "''gnuplot''" "''Licenses''"]
    by (simp add: main_def r1 r2 r3 r4 s g)
qed

text \<open>
  Claim C6.  The log lines below are read as a check-out of module \<open>A\<close> by
  \<open>b\<close> on machine \<open>c:d@e\<close> and a check-in of module \<open>A:b@c\<close> by \<open>d\<close>
  on machine \<open>e\<close>.  Both get the key \<open>A:b@c:d@e\<close>, so the deduplicator accepts the
  check-in although module \<open>A:b@c\<close> has no license checked out.  The check-in is
  the first accepted event of its module, its series starts at 0, and the data file of
  \<open>A:b@c\<close> ends with concurrency 0, while the module has no accepted check-out and
  one accepted check-in.
\<close>

theorem final_use_on_key_collision:
  "read_files
     [[''20:52:29 (lmgrd) TIMESTAMP 7/30/2012'',
       ''21:00:02 (d) OUT: \"A\" b@c:d@e'',
       ''21:00:03 (d) IN: \"A:b@c\" d@e'']] =
     (1, [(''2012/7/30'', ''21:00:02'', ''OUT'', ''A'', ''b'', ''c:d@e''),
          (''2012/7/30'', ''21:00:03'', ''IN'', ''A:b@c'', ''d'', ''e'')]) \<and>
   dedup_key ''A'' ''b'' ''c:d@e'' = dedup_key ''A:b@c'' ''d'' ''e'' \<and>
   accepted {}
     [(''2012/7/30'', ''21:00:02'', ''OUT'', ''A'', ''b'', ''c:d@e''),
      (''2012/7/30'', ''21:00:03'', ''IN'', ''A:b@c'', ''d'', ''e'')] =
     [(''2012/7/30'', ''21:00:02'', ''OUT'', ''A'', ''b'', ''c:d@e''),
      (''2012/7/30'', ''21:00:03'', ''IN'', ''A:b@c'', ''d'', ''e'')] \<and>
   main ''gnuplot'' ''Licenses''
     [[''20:52:29 (lmgrd) TIMESTAMP 7/30/2012'',
       ''21:00:02 (d) OUT: \"A\" b@c:d@e'',
       ''21:00:03 (d) IN: \"A:b@c\" d@e'']] =
     Inr (Report ''Licenses_report''
            [(''A.dat'', [(''2012/7/30'', ''21:00:02'', 1)]),
             (''A:b@c.dat'', [(''2012/7/30'', ''21:00:03'', 0)])]) \<and>
   int (length (filter (checkout_of ''A:b@c'') (accepted {}
     [(''2012/7/30'', ''21:00:02'', ''OUT'', ''A'', ''b'', ''c:d@e''),
      (''2012/7/30'', ''21:00:03'', ''IN'', ''A:b@c'', ''d'', ''e'')]))) -
   int (length (filter (checkin_of ''A:b@c'') (accepted {}
     [(''2012/7/30'', ''21:00:02'', ''OUT'', ''A'', ''b'', ''c:d@e''),
      (''2012/7/30'', ''21:00:03'', ''IN'', ''A:b@c'', ''d'', ''e'')]))) = - 1"
proof -
  have r: "read_files
     [[''20:52:29 (lmgrd) TIMESTAMP 7/30/2012'',
       ''21:00:02 (d) OUT: \"A\" b@c:d@e'',
       ''21:00:03 (d) IN: \"A:b@c\" d@e'']] =
     (1, [(''2012/7/30'', ''21:00:02'', ''OUT'', ''A'', ''b'', ''c:d@e''),
          (''2012/7/30'', ''21:00:03'', ''IN'', ''A:b@c'', ''d'', ''e'')])"
    by (simp add: read_defs)
  have g: "output_gnuplot
     [(''2012/7/30'', ''21:00:02'', ''OUT'', ''A'', ''b'', ''c:d@e''),
      (''2012/7/30'', ''21:00:03'', ''IN'', ''A:b@c'', ''d'', ''e'')] =
     Inr [(''A.dat'', [(''2012/7/30'', ''21:00:02'', 1)]),
          (''A:b@c.dat'', [(''2012/7/30'', ''21:00:03'', 0)])]"
    by (simp add: eval_defs)
  have a: "accepted {}
     [(''2012/7/30'', ''21:00:02'', ''OUT'', ''A'', ''b'', ''c:d@e''),
      (''2012/7/30'', ''21:00:03'', ''IN'', ''A:b@c'', ''d'', ''e'')] =
     [(''2012/7/30'', ''21:00:02'', ''OUT'', ''A'', ''b'', ''c:d@e''),
      (''2012/7/30'', ''21:00:03'', ''IN'', ''A:b@c'', ''d'', ''e'')]"
    by (simp add: eval_defs)
  show ?thesis
    unfolding main_def r a
    by (simp add: g dedup_key_def checkout_of_def checkin_of_def lower_def lower_char_def)
qed

theorem first_event_initial_use_witness:
  "filter (\<lambda>e. module_of e = ''A'') (accepted {}
     [(''2012/7/30'', ''8:00:00'', ''OUT'', ''A'', ''u'', ''h''),
      (''2012/7/30'', ''9:00:00'', ''IN'', ''A'', ''u'', ''h'')]) =
     (''2012/7/30'', ''8:00:00'', ''OUT'', ''A'', ''u'', ''h'') #
     [(''2012/7/30'', ''9:00:00'', ''IN'', ''A'', ''u'', ''h'')] \<and>
   map_option hd (dat_rows (output_gnuplot
     [(''2012/7/30'', ''8:00:00'', ''OUT'', ''A'', ''u'', ''h''),
      (''2012/7/30'', ''9:00:00'', ''IN'', ''A'', ''u'', ''h'')]) ''A'') =
     Some (''2012/7/30'', ''8:00:00'', 1) \<and>
   init_use_upon_state ''IN'' = 0"
  using first_event_initial_use [where m = "''A''" and state = "''IN''"
      and e = "(''2012/7/30'', ''8:00:00'', ''OUT'', ''A'', ''u'', ''h'')"
      and rest = "[(''2012/7/30'', ''9:00:00'', ''IN'', ''A'', ''u'', ''h'')]"
      and result_list = "[(''2012/7/30'', ''8:00:00'', ''OUT'', ''A'', ''u'', ''h''),
      (''2012/7/30'', ''9:00:00'', ''IN'', ''A'', ''u'', ''h'')]"]
  by (simp add: eval_defs)

text \<open>
  Claim C1.  The log lines below are read as four events.  The deduplicator gives the
  check-out of module \<open>A\<close> by \<open>b\<close> on machine \<open>c:d@e\<close> and the check-in of
  module \<open>A:b@c\<close> by \<open>d\<close> on machine \<open>e\<close> the same key, so it accepts that
  check-in although module \<open>A:b@c\<close> has no license checked out, and both folds then
  count -1 concurrent users for module \<open>A:b@c\<close>.
\<close>

theorem negative_count_on_key_collision:
  "read_files
     [[''1:00:00 (d) OUT: \"A:b@c\" x@y'',
       ''1:00:01 (d) IN: \"A:b@c\" x@y'',
       ''1:00:02 (d) OUT: \"A\" b@c:d@e'',
       ''1:00:03 (d) IN: \"A:b@c\" d@e'']] =
     (0, [(''??/??/????'', ''1:00:00'', ''OUT'', ''A:b@c'', ''x'', ''y''),
          (''??/??/????'', ''1:00:01'', ''IN'', ''A:b@c'', ''x'', ''y''),
          (''??/??/????'', ''1:00:02'', ''OUT'', ''A'', ''b'', ''c:d@e''),
          (''??/??/????'', ''1:00:03'', ''IN'', ''A:b@c'', ''d'', ''e'')]) \<and>
   dedup_key ''A'' ''b'' ''c:d@e'' = dedup_key ''A:b@c'' ''d'' ''e'' \<and>
   nb_users_in (do_some_stats
         [(''??/??/????'', ''1:00:00'', ''OUT'', ''A:b@c'', ''x'', ''y''),
          (''??/??/????'', ''1:00:01'', ''IN'', ''A:b@c'', ''x'', ''y''),
          (''??/??/????'', ''1:00:02'', ''OUT'', ''A'', ''b'', ''c:d@e''),
          (''??/??/????'', ''1:00:03'', ''IN'', ''A:b@c'', ''d'', ''e'')]) ''A:b@c'' = - 1 \<and>
   rows_of (output_gnuplot
         [(''??/??/????'', ''1:00:00'', ''OUT'', ''A:b@c'', ''x'', ''y''),
          (''??/??/????'', ''1:00:01'', ''IN'', ''A:b@c'', ''x'', ''y''),
          (''??/??/????'', ''1:00:02'', ''OUT'', ''A'', ''b'', ''c:d@e''),
          (''??/??/????'', ''1:00:03'', ''IN'', ''A:b@c'', ''d'', ''e'')]) ''A:b@c'' =
     [(''??/??/????'', ''1:00:00'', 1), (''??/??/????'', ''1:00:01'', 0),
      (''??/??/????'', ''1:00:03'', - 1)]"
  by (simp add: eval_defs read_defs dedup_key_def)

end
